theory Spec2Isabelle
  imports Main
begin

section \<open>Positions and expressions\<close>

text \<open>
  \<^verbatim>\<open>PositionRange\<close> is a half-open range of offsets into the template together with the
  line on which it starts. Offsets and line numbers are natural numbers; strings are
  lists of characters, one \<^typ>\<open>char\<close> per code unit of the source string.
\<close>

record PositionRange =
  start :: nat
  endp :: nat
  lineStart :: nat

text \<open>The constructor takes \<^verbatim>\<open>(start, lineStart, end?)\<close>; a missing end is \<^verbatim>\<open>start + 1\<close>.\<close>

definition newPositionRange :: "nat \<Rightarrow> nat \<Rightarrow> nat option \<Rightarrow> PositionRange" where
  "newPositionRange s l e =
     \<lparr>start = s, endp = (case e of None \<Rightarrow> s + 1 | Some e' \<Rightarrow> e'), lineStart = l\<rparr>"

text \<open>A \<^verbatim>\<open>TsCodeExpression\<close> is a position and the raw text of the expression.\<close>

datatype TsCodeExpression = TsCodeExpression (position: PositionRange) (exprValue: string)

definition exprToString :: "TsCodeExpression \<Rightarrow> string" where
  "exprToString e = exprValue e"

section \<open>Fragments and the source map\<close>

text \<open>
  A \<^verbatim>\<open>TsCode\<close> fragment holds its source offset, the offset into the parent's literal at
  which it is spliced, its children, its own literal and the flag that says whether it
  is entered into the map.
\<close>

datatype TsCode = TsCode
  (tc_sourceOffset: nat)
  (tc_parentOffset: nat)
  (tc_children: "TsCode list")
  (tc_literal: string)
  (tc_shouldBeMapped: bool)

record TsCodeBuilder =
  bd_sourceOffset :: nat
  bd_parentOffset :: nat
  bd_children :: "TsCode list"
  bd_literal :: string

record MapItem =
  sourceOffset :: nat
  generatedOffset :: nat
  mapLength :: nat

definition newTsCode :: "nat \<Rightarrow> bool \<Rightarrow> TsCodeBuilder \<Rightarrow> TsCode" where
  "newTsCode so sbm b = TsCode so (bd_parentOffset b) (bd_children b) (bd_literal b) sbm"

text \<open>The setter of \<^verbatim>\<open>#parentOffset\<close>, applied by a parent to a fragment it has just built.\<close>

definition setParentOffset :: "nat \<Rightarrow> TsCode \<Rightarrow> TsCode" where
  "setParentOffset v t =
     TsCode (tc_sourceOffset t) v (tc_children t) (tc_literal t) (tc_shouldBeMapped t)"

text \<open>
  \<^verbatim>\<open>String.prototype.slice\<close> on offsets that are never negative: the characters from
  \<open>a\<close> up to \<open>b\<close>, both clipped to the string, and nothing when \<open>b \<le> a\<close>.
\<close>

definition slice :: "string \<Rightarrow> nat \<Rightarrow> nat \<Rightarrow> string" where
  "slice s a b = take (b - a) (drop a s)"

definition sliceFrom :: "string \<Rightarrow> nat \<Rightarrow> string" where
  "sliceFrom s a = drop a s"

text \<open>
  \<^verbatim>\<open>toMappedString\<close>: the loop over the children carries the generated text, the map
  and the last splice point; after the loop the rest of the literal is appended.
\<close>

fun toMappedString :: "TsCode \<Rightarrow> MapItem list \<times> string"
  and toMappedLoop ::
    "string \<Rightarrow> TsCode list \<Rightarrow> string \<Rightarrow> MapItem list \<Rightarrow> nat \<Rightarrow> MapItem list \<times> string"
where
  "toMappedString (TsCode so po cs lit sbm) = toMappedLoop lit cs [] [] 0"
| "toMappedLoop lit [] generatedCode maps lastLiteralIndex =
     (maps, generatedCode @ sliceFrom lit lastLiteralIndex)"
| "toMappedLoop lit (child # rest) generatedCode maps lastLiteralIndex =
     (let generatedCode1 = generatedCode @ slice lit lastLiteralIndex (tc_parentOffset child);
          lastLiteralIndex1 = tc_parentOffset child;
          childResult = toMappedString child;
          childMaps = fst childResult;
          childAsString = snd childResult;
          maps1 = (if tc_shouldBeMapped child
                   then maps @ [\<lparr>sourceOffset = tc_sourceOffset child,
                                 generatedOffset = length generatedCode1,
                                 mapLength = length childAsString\<rparr>]
                   else maps);
          maps2 = maps1 @ map (\<lambda>childMap.
                     childMap\<lparr>generatedOffset := length generatedCode1 + generatedOffset childMap\<rparr>)
                     childMaps
      in toMappedLoop lit rest (generatedCode1 @ childAsString) maps2 lastLiteralIndex1)"






section \<open>Statements\<close>

datatype StatementName =
    SN_TextStatement
  | SN_InlineTsCodeStatement
  | SN_InlineSafeTsCodeStatement
  | SN_EachStatement
  | SN_EndStatement
  | SN_IfStatement
  | SN_ElseIfStatement
  | SN_ElseStatement
  | SN_LetStatement
  | SN_AssignStatement
  | SN_ParamStatement
  | SN_ImportStatement
  | SN_DefineSlotStatement
  | SN_ComponentStatement
  | SN_ComponentMainSlotStatement
  | SN_ComponentSlotStatement

text \<open>The string value of each member of the enum.\<close>

fun statementNameString :: "StatementName \<Rightarrow> string" where
  "statementNameString SN_TextStatement = ''TextStatement''"
| "statementNameString SN_InlineTsCodeStatement = ''InlineTsCodeStatement''"
| "statementNameString SN_InlineSafeTsCodeStatement = ''InlineSafeTsCodeStatement''"
| "statementNameString SN_EachStatement = ''EachStatement''"
| "statementNameString SN_EndStatement = ''EndStatement''"
| "statementNameString SN_IfStatement = ''IfStatement''"
| "statementNameString SN_ElseIfStatement = ''ElseIfStatement''"
| "statementNameString SN_ElseStatement = ''ElseStatement''"
| "statementNameString SN_LetStatement = ''LetStatement''"
| "statementNameString SN_AssignStatement = ''AssignStatement''"
| "statementNameString SN_ParamStatement = ''ParamStatement''"
| "statementNameString SN_ImportStatement = ''ImportStatement''"
| "statementNameString SN_DefineSlotStatement = ''DefineSlotStatement''"
| "statementNameString SN_ComponentStatement = ''ComponentStatement''"
| "statementNameString SN_ComponentMainSlotStatement = ''ComponentMainSlotStatement''"
| "statementNameString SN_ComponentSlotStatement = ''ComponentSlotStatement''"

text \<open>
  One constructor per statement class, with the position first and then the private
  fields in the order of the class's constructor. The \<^verbatim>\<open>next\<close> of an \<^verbatim>\<open>IfStatement\<close> or
  \<^verbatim>\<open>ElseIfStatement\<close> is whatever statement the parser puts there: the parser casts, it
  does not check the class.
\<close>

datatype Statement =
    TextStatement PositionRange string
  | InlineTsCodeStatement PositionRange TsCodeExpression
  | InlineSafeTsCodeStatement PositionRange TsCodeExpression
  | EachStatement PositionRange TsCodeExpression TsCodeExpression "Statement list"
  | EndStatement PositionRange
  | IfStatement PositionRange TsCodeExpression "Statement list" "Statement option"
  | ElseIfStatement PositionRange TsCodeExpression "Statement list" "Statement option"
  | ElseStatement PositionRange "Statement list"
  | LetStatement PositionRange TsCodeExpression "TsCodeExpression option"
  | AssignStatement PositionRange TsCodeExpression TsCodeExpression
  | ParamStatement PositionRange TsCodeExpression TsCodeExpression "TsCodeExpression option"
  | ImportStatement PositionRange TsCodeExpression
  | DefineSlotStatement PositionRange TsCodeExpression "TsCodeExpression option"
  | ComponentStatement PositionRange TsCodeExpression TsCodeExpression Statement "Statement list"
  | ComponentMainSlotStatement PositionRange "Statement list"
  | ComponentSlotStatement PositionRange TsCodeExpression "TsCodeExpression option" "Statement list"

text \<open>The public \<^verbatim>\<open>name\<close> field, as each class initialises it.\<close>

fun name :: "Statement \<Rightarrow> StatementName" where
  "name (TextStatement _ _) = SN_TextStatement"
| "name (InlineTsCodeStatement _ _) = SN_InlineTsCodeStatement"
| "name (InlineSafeTsCodeStatement _ _) = SN_InlineSafeTsCodeStatement"
| "name (EachStatement _ _ _ _) = SN_EachStatement"
| "name (EndStatement _) = SN_EndStatement"
| "name (IfStatement _ _ _ _) = SN_IfStatement"
| "name (ElseIfStatement _ _ _ _) = SN_ElseIfStatement"
| "name (ElseStatement _ _) = SN_ElseStatement"
| "name (LetStatement _ _ _) = SN_LetStatement"
| "name (AssignStatement _ _ _) = SN_LetStatement"
| "name (ParamStatement _ _ _ _) = SN_ParamStatement"
| "name (ImportStatement _ _) = SN_ImportStatement"
| "name (DefineSlotStatement _ _ _) = SN_DefineSlotStatement"
| "name (ComponentStatement _ _ _ _ _) = SN_ComponentStatement"
| "name (ComponentMainSlotStatement _ _) = SN_ComponentMainSlotStatement"
| "name (ComponentSlotStatement _ _ _ _) = SN_ComponentSlotStatement"

fun hasToBeHandledInParse :: "Statement \<Rightarrow> bool" where
  "hasToBeHandledInParse (ElseIfStatement _ _ _ _) = True"
| "hasToBeHandledInParse (ElseStatement _ _) = True"
| "hasToBeHandledInParse (ComponentMainSlotStatement _ _) = True"
| "hasToBeHandledInParse (ComponentSlotStatement _ _ _ _) = True"
| "hasToBeHandledInParse _ = False"

fun stmtPosition :: "Statement \<Rightarrow> PositionRange" where
  "stmtPosition (TextStatement p _) = p"
| "stmtPosition (InlineTsCodeStatement p _) = p"
| "stmtPosition (InlineSafeTsCodeStatement p _) = p"
| "stmtPosition (EachStatement p _ _ _) = p"
| "stmtPosition (EndStatement p) = p"
| "stmtPosition (IfStatement p _ _ _) = p"
| "stmtPosition (ElseIfStatement p _ _ _) = p"
| "stmtPosition (ElseStatement p _) = p"
| "stmtPosition (LetStatement p _ _) = p"
| "stmtPosition (AssignStatement p _ _) = p"
| "stmtPosition (ParamStatement p _ _ _) = p"
| "stmtPosition (ImportStatement p _) = p"
| "stmtPosition (DefineSlotStatement p _ _) = p"
| "stmtPosition (ComponentStatement p _ _ _ _) = p"
| "stmtPosition (ComponentMainSlotStatement p _) = p"
| "stmtPosition (ComponentSlotStatement p _ _ _) = p"

text \<open>\<^verbatim>\<open>x instanceof EndStatement\<close> and \<^verbatim>\<open>x instanceof ComponentSlotStatement\<close>.\<close>

fun isEndStatement :: "Statement \<Rightarrow> bool" where
  "isEndStatement (EndStatement _) = True"
| "isEndStatement _ = False"

fun isComponentSlotStatement :: "Statement \<Rightarrow> bool" where
  "isComponentSlotStatement (ComponentSlotStatement _ _ _ _) = True"
| "isComponentSlotStatement _ = False"

subsection \<open>The structured fragment of a statement\<close>



subsection \<open>The plain description of a statement\<close>

text \<open>
  The description objects are a tagged union on the \<^verbatim>\<open>type\<close> field: one constructor per
  object type, with the remaining fields in the order of the type declaration.
\<close>

datatype StatementObject =
    TextStatementObject string
  | InlineTsCodeStatementObject string
  | InlineSafeTsCodeStatementObject string
  | EachStatementObject (obj_variable: string) (obj_iterator: string) (obj_children: "StatementObject list")
  | IfStatementObject string "StatementObject list" "StatementObject option"
  | ElseIfStatementObject string "StatementObject list" "StatementObject option"
  | ElseStatementObject "StatementObject list"
  | LetStatementObject string "string option"
  | AssingStatementObject string string
  | ParamStatementObject string string "string option"
  | ImportStatementObject string
  | DefineSlotStatementObject string "string option"
  | ComponentStatementObject string string "StatementObject option" "StatementObject list"
  | ComponentMainSlotStatementObject "StatementObject list"
  | ComponentSlotStatementObject string "string option" "StatementObject list"

fun objectType :: "StatementObject \<Rightarrow> StatementName" where
  "objectType (TextStatementObject _) = SN_TextStatement"
| "objectType (InlineTsCodeStatementObject _) = SN_InlineTsCodeStatement"
| "objectType (InlineSafeTsCodeStatementObject _) = SN_InlineSafeTsCodeStatement"
| "objectType (EachStatementObject _ _ _) = SN_EachStatement"
| "objectType (IfStatementObject _ _ _) = SN_IfStatement"
| "objectType (ElseIfStatementObject _ _ _) = SN_ElseIfStatement"
| "objectType (ElseStatementObject _) = SN_ElseStatement"
| "objectType (LetStatementObject _ _) = SN_LetStatement"
| "objectType (AssingStatementObject _ _) = SN_AssignStatement"
| "objectType (ParamStatementObject _ _ _) = SN_ParamStatement"
| "objectType (ImportStatementObject _) = SN_ImportStatement"
| "objectType (DefineSlotStatementObject _ _) = SN_DefineSlotStatement"
| "objectType (ComponentStatementObject _ _ _ _) = SN_ComponentStatement"
| "objectType (ComponentMainSlotStatementObject _) = SN_ComponentMainSlotStatement"
| "objectType (ComponentSlotStatementObject _ _ _) = SN_ComponentSlotStatement"

text \<open>
  \<^verbatim>\<open>childrenToObject\<close> maps \<^verbatim>\<open>toObject\<close> over the children and drops the nulls; it is
  given the mapped list here, so that \<^verbatim>\<open>toObject\<close> recurses through \<^const>\<open>map\<close>.
\<close>

definition dropNulls :: "'a option list \<Rightarrow> 'a list" where
  "dropNulls xs = map the (filter (\<lambda>child. child \<noteq> None) xs)"

fun toObject :: "Statement \<Rightarrow> StatementObject option" where
  "toObject (TextStatement p v) = Some (TextStatementObject v)"
| "toObject (InlineTsCodeStatement p e) = Some (InlineTsCodeStatementObject (exprToString e))"
| "toObject (InlineSafeTsCodeStatement p e) =
     Some (InlineSafeTsCodeStatementObject (exprToString e))"
| "toObject (EachStatement p iterator variable cs) =
     Some (EachStatementObject (exprToString variable) (exprToString variable)
             (dropNulls (map toObject cs)))"
| "toObject (EndStatement p) = None"
| "toObject (IfStatement p e cs nxt) =
     Some (IfStatementObject (exprToString e) (dropNulls (map toObject cs))
             (case nxt of None \<Rightarrow> None | Some n \<Rightarrow> toObject n))"
| "toObject (ElseIfStatement p e cs nxt) =
     Some (ElseIfStatementObject (exprToString e) (dropNulls (map toObject cs))
             (case nxt of None \<Rightarrow> None | Some n \<Rightarrow> toObject n))"
| "toObject (ElseStatement p cs) = Some (ElseStatementObject (dropNulls (map toObject cs)))"
| "toObject (LetStatement p variableName v) =
     Some (LetStatementObject (exprToString variableName) (map_option exprToString v))"
| "toObject (AssignStatement p variableName v) =
     Some (AssingStatementObject (exprToString variableName) (exprToString v))"
| "toObject (ParamStatement p nm ty defaultValue) =
     Some (ParamStatementObject (exprToString nm) (exprToString ty)
             (map_option exprToString defaultValue))"
| "toObject (ImportStatement p e) = Some (ImportStatementObject (exprToString e))"
| "toObject (DefineSlotStatement p slotName slotArguments) =
     Some (DefineSlotStatementObject (exprToString slotName)
             (map_option exprToString slotArguments))"
| "toObject (ComponentStatement p component params mainSlot slots) =
     Some (ComponentStatementObject (exprToString component) (exprToString params)
             (toObject mainSlot) (dropNulls (map toObject slots)))"
| "toObject (ComponentMainSlotStatement p cs) =
     Some (ComponentMainSlotStatementObject (dropNulls (map toObject cs)))"
| "toObject (ComponentSlotStatement p slotName paramsVariable cs) =
     Some (ComponentSlotStatementObject (exprToString slotName)
             (map_option exprToString paramsVariable) (dropNulls (map toObject cs)))"

definition childrenToObject :: "Statement list \<Rightarrow> StatementObject list" where
  "childrenToObject cs = dropNulls (map toObject cs)"

subsection \<open>The flattened executable string of a statement\<close>

text \<open>\<^verbatim>\<open>safeString\<close>: three passes of \<^verbatim>\<open>replaceAll\<close>, each on one character.\<close>

definition replaceAllChar :: "char \<Rightarrow> string \<Rightarrow> string \<Rightarrow> string" where
  "replaceAllChar c r s = concat (map (\<lambda>x. if x = c then r else [x]) s)"

definition safeString :: "string \<Rightarrow> string" where
  "safeString v =
     replaceAllChar (CHR ''\<newline>'') [CHR 0x5C, CHR ''n'']
       (replaceAllChar (CHR 0x22) [CHR 0x5C, CHR 0x22]
          (replaceAllChar (CHR 0x5C) [CHR 0x5C, CHR 0x5C] v))"

text \<open>The decimal digits of a number, as a template string prints it.\<close>

fun numberToString :: "nat \<Rightarrow> string" where
  "numberToString n =
     (if n < 10 then [char_of (48 + n)]
      else numberToString (n div 10) @ [char_of (48 + n mod 10)])"

declare numberToString.simps [simp del]

definition setCompiledStringLine :: "nat \<Rightarrow> string \<Rightarrow> string" where
  "setCompiledStringLine ln compiledString =
     ''$line = '' @ numberToString (ln + 1) @ ''\<newline>'' @ [CHR 0x09] @ compiledString"

text \<open>
  \<^verbatim>\<open>childrenToCompiledString\<close> starts with a newline and appends each child's string and a
  newline; it is given the strings of the children.
\<close>

definition joinCompiled :: "string list \<Rightarrow> string" where
  "joinCompiled css = ''\<newline>'' @ concat (map (\<lambda>c. c @ ''\<newline>'') css)"

fun toCompiledString :: "Statement \<Rightarrow> string" where
  "toCompiledString (TextStatement p v) = ''out += \"'' @ safeString v @ ''\"''"
| "toCompiledString (InlineTsCodeStatement p e) =
     setCompiledStringLine (lineStart p) (''out += String('' @ exprToString e @ '')'')"
| "toCompiledString (InlineSafeTsCodeStatement p e) =
     ''out += $api.safeString(String('' @ exprToString e @ ''))''"
| "toCompiledString (EachStatement p iterator variable cs) =
     setCompiledStringLine (lineStart p)
       (''for (const '' @ exprToString variable @ '' of '' @ exprToString iterator @ '') {''
        @ joinCompiled (map toCompiledString cs) @ ''}'')"
| "toCompiledString (EndStatement p) = []"
| "toCompiledString (IfStatement p e cs nxt) =
     setCompiledStringLine (lineStart p)
       (''if ('' @ exprToString e @ '') {'' @ joinCompiled (map toCompiledString cs) @ ''}''
        @ (case nxt of Some n \<Rightarrow> ''\<newline>'' @ toCompiledString n | None \<Rightarrow> []))"
| "toCompiledString (ElseIfStatement p e cs nxt) =
     setCompiledStringLine (lineStart p)
       (''elseif ('' @ exprToString e @ '') {'' @ joinCompiled (map toCompiledString cs) @ ''}''
        @ (case nxt of Some n \<Rightarrow> ''\<newline>'' @ toCompiledString n | None \<Rightarrow> []))"
| "toCompiledString (ElseStatement p cs) =
     setCompiledStringLine (lineStart p)
       (''else {'' @ joinCompiled (map toCompiledString cs) @ ''}'')"
| "toCompiledString (LetStatement p variableName v) =
     setCompiledStringLine (lineStart p)
       (''let '' @ exprToString variableName
        @ (case v of Some v' \<Rightarrow> '' = '' @ exprToString v' | None \<Rightarrow> []))"
| "toCompiledString (AssignStatement p variableName v) =
     setCompiledStringLine (lineStart p)
       (exprToString variableName @ '' = '' @ exprToString v)"
| "toCompiledString (ParamStatement p nm ty defaultValue) = []"
| "toCompiledString (ImportStatement p e) = []"
| "toCompiledString (DefineSlotStatement p slotName slotArguments) = []"
| "toCompiledString (ComponentStatement p component params mainSlot slots) =
     ''out += await $api.renderComponent('' @ exprToString component @ '', ''
     @ exprToString params @ '', {\<newline>'' @ toCompiledString mainSlot
     @ joinCompiled (map toCompiledString slots) @ ''})\<newline>''"
| "toCompiledString (ComponentMainSlotStatement p cs) =
     ''main: async () => {\<newline>'' @ [CHR 0x09] @ ''let out = \"\"''
     @ joinCompiled (map toCompiledString cs) @ ''return out\<newline>}, ''"
| "toCompiledString (ComponentSlotStatement p slotName paramsVariable cs) =
     exprToString slotName @ '': async (''
     @ (case paramsVariable of Some v \<Rightarrow> exprToString v | None \<Rightarrow> [])
     @ '') => {\<newline>'' @ [CHR 0x09] @ ''let out = \"\"''
     @ joinCompiled (map toCompiledString cs) @ ''return out\<newline>}, ''"

definition childrenToCompiledString :: "Statement list \<Rightarrow> string" where
  "childrenToCompiledString cs = joinCompiled (map toCompiledString cs)"

section \<open>The parser\<close>

text \<open>
  Every parser error is a \<^verbatim>\<open>ParserError\<close> built by one of the functions of
  \<^verbatim>\<open>error.ts\<close>; a constructor per function keeps the position and the values that go into
  the message.
\<close>

datatype ParserError =
    UnexpctedError PositionRange string "string option"
  | InvalidTagNameError PositionRange string
  | DisalowedTagContexError PositionRange StatementName
  | UnexpectedAmountOfArgumentsError PositionRange nat nat
  | EmptyExpressionError PositionRange
  | InvalidImportSlotsParamsOrder PositionRange
  | SlotOutsideComponenterror PositionRange
  | SlotDefinitionNamedMainError PositionRange

text \<open>
  A call either throws (\<open>Inl\<close>) or returns (\<open>Inr\<close>). The functions that read a block
  are defined with a bound on the depth of their recursion, and \<open>None\<close> says that the
  bound was reached.
\<close>

type_synonym 'a outcome = "(ParserError + 'a) option"

definition bindE :: "ParserError + 'a \<Rightarrow> ('a \<Rightarrow> 'b outcome) \<Rightarrow> 'b outcome" where
  "bindE m f = (case m of Inl e \<Rightarrow> Some (Inl e) | Inr x \<Rightarrow> f x)"

definition bindO :: "'a outcome \<Rightarrow> ('a \<Rightarrow> 'b outcome) \<Rightarrow> 'b outcome" where
  "bindO m f = (case m of None \<Rightarrow> None | Some (Inl e) \<Rightarrow> Some (Inl e) | Some (Inr x) \<Rightarrow> f x)"

text \<open>
  The template and the file path never change; the template is a parameter of every
  function. The mutable fields \<^verbatim>\<open>#index\<close> and \<^verbatim>\<open>#line\<close> are the state.
\<close>

record Parser =
  index :: nat
  line :: nat

definition getCharAt :: "string \<Rightarrow> nat \<Rightarrow> char option" where
  "getCharAt code i = (if i \<ge> length code then None else Some (code ! i))"

definition currentChar :: "string \<Rightarrow> Parser \<Rightarrow> char option" where
  "currentChar code p = getCharAt code (index p)"

definition peek :: "string \<Rightarrow> nat \<Rightarrow> Parser \<Rightarrow> char option" where
  "peek code at p = getCharAt code (index p + at)"

definition isAtEnd :: "string \<Rightarrow> Parser \<Rightarrow> bool" where
  "isAtEnd code p = (currentChar code p = None)"

fun advance :: "string \<Rightarrow> nat \<Rightarrow> Parser \<Rightarrow> Parser" where
  "advance code 0 p = p"
| "advance code (Suc n) p =
     (let p1 = p\<lparr>index := index p + 1\<rparr>
      in advance code n
           (if currentChar code p1 = Some (CHR ''\<newline>'') then p1\<lparr>line := line p1 + 1\<rparr> else p1))"

definition createPosition :: "Parser \<Rightarrow> nat \<Rightarrow> PositionRange" where
  "createPosition p len = newPositionRange (index p) (line p) (Some (index p + len))"

definition consume :: "string \<Rightarrow> char \<Rightarrow> Parser \<Rightarrow> ParserError + Parser" where
  "consume code c p =
     (if currentChar code p \<noteq> Some c
      then Inl (UnexpctedError (createPosition p 1) [c] (map_option (\<lambda>x. [x]) (currentChar code p)))
      else Inr (advance code 1 p))"

definition areImportStatementsAllowedAfter :: "StatementName \<Rightarrow> bool" where
  "areImportStatementsAllowedAfter statementName =
     (statementName \<in> set [SN_TextStatement, SN_ImportStatement])"

definition areDefineSlotStatementsAllowedAfter :: "StatementName \<Rightarrow> bool" where
  "areDefineSlotStatementsAllowedAfter statementName =
     (statementName \<in> set [SN_TextStatement, SN_ImportStatement, SN_DefineSlotStatement])"

definition areParamStatementsAllowedAfter :: "StatementName \<Rightarrow> bool" where
  "areParamStatementsAllowedAfter statementName =
     (statementName \<in> set [SN_TextStatement, SN_ParamStatement, SN_ImportStatement,
                            SN_DefineSlotStatement])"

subsection \<open>Scanning up to a terminator\<close>

definition PAREN_START :: "char set" where
  "PAREN_START = {CHR ''('', CHR ''['', CHR ''{''}"

definition PAREN_END :: "char set" where
  "PAREN_END = {CHR '')'', CHR '']'', CHR ''}''}"

text \<open>The pattern \<^verbatim>\<open>/^[a-z0-9-_]$/i\<close> on one character.\<close>

definition isValidTagChar :: "char \<Rightarrow> bool" where
  "isValidTagChar c =
     (c \<in> set (''abcdefghijklmnopqrstuvwxyz'' @ ''ABCDEFGHIJKLMNOPQRSTUVWXYZ''
                 @ ''0123456789'' @ ''-_''))"

text \<open>
  The characters that \<^verbatim>\<open>trimStart\<close> and \<^verbatim>\<open>trimEnd\<close> remove, among the code units
  below 256: tab, line feed, vertical tab, form feed, carriage return, space and the
  no-break space.
\<close>

definition isWhiteSpace :: "char \<Rightarrow> bool" where
  "isWhiteSpace c =
     (c \<in> {CHR 0x09, CHR ''\<newline>'', CHR 0x0B, CHR 0x0C, CHR 0x0D, CHR '' '', CHR 0xA0})"

definition trimStart :: "string \<Rightarrow> string" where
  "trimStart s = dropWhile isWhiteSpace s"

definition trimEnd :: "string \<Rightarrow> string" where
  "trimEnd s = rev (dropWhile isWhiteSpace (rev s))"

fun areNextCharsFrom :: "string \<Rightarrow> nat \<Rightarrow> string \<Rightarrow> bool" where
  "areNextCharsFrom code i [] = True"
| "areNextCharsFrom code i (c # controll) =
     (if getCharAt code i = Some c then areNextCharsFrom code (i + 1) controll else False)"

definition areNextChars :: "string \<Rightarrow> Parser \<Rightarrow> string \<Rightarrow> bool" where
  "areNextChars code p controll = areNextCharsFrom code (index p) controll"

record ValuePosition =
  vp_value :: string
  vp_position :: PositionRange

record Scanned = ValuePosition +
  controllChar :: string

definition trimWithPosition :: "string \<Rightarrow> PositionRange \<Rightarrow> ValuePosition" where
  "trimWithPosition v pos =
     (let valueTrimedStart = trimStart v;
          newStartIndex = start pos + (length v - length valueTrimedStart);
          valueTrimedEnd = trimEnd valueTrimedStart;
          newEndIndex = endp pos - (length valueTrimedStart - length valueTrimedEnd)
      in \<lparr>vp_value = valueTrimedEnd,
          vp_position = newPositionRange newStartIndex (lineStart pos) (Some newEndIndex)\<rparr>)"

lemma getCharAt_Some_less: "getCharAt code i = Some c \<Longrightarrow> i < length code"
  by (simp add: getCharAt_def split: if_splits)

lemma index_advance [simp]: "index (advance code n p) = index p + n"
  by (induction n arbitrary: p) (simp_all add: Let_def)

declare advance.simps [simp del]

text \<open>
  The loop of \<^verbatim>\<open>#skipUntilAndWith\<close>. The terminators are tried in their order and only
  at depth 0; an opening bracket is counted before any terminator is looked for.
\<close>

function skipUntilLoop ::
  "string \<Rightarrow> string list \<Rightarrow> bool \<Rightarrow> nat \<Rightarrow> nat \<Rightarrow> nat \<Rightarrow> Parser \<Rightarrow> ParserError + (Scanned \<times> Parser)"
where
  "skipUntilLoop code untilChars allowEmpty startIndex startLine depth p =
     (case currentChar code p of
        None \<Rightarrow>
          Inl (UnexpctedError (createPosition p 1)
                 (case untilChars of [] \<Rightarrow> ''undefined'' | u # _ \<Rightarrow> u) None)
      | Some c \<Rightarrow>
          if c \<in> PAREN_START
          then skipUntilLoop code untilChars allowEmpty startIndex startLine (depth + 1)
                 (advance code 1 p)
          else if depth > 0 \<and> c \<in> PAREN_END
          then skipUntilLoop code untilChars allowEmpty startIndex startLine (depth - 1)
                 (advance code 1 p)
          else (case (if depth = 0 then find (areNextChars code p) untilChars else None) of
                  Some controll \<Rightarrow>
                    (let v = slice code startIndex (index p);
                         endIndex = index p;
                         p1 = advance code (length controll) p;
                         trimed = trimWithPosition v
                                    (newPositionRange startIndex startLine (Some endIndex))
                     in if \<not> allowEmpty \<and> length (vp_value trimed) = 0
                        then Inl (EmptyExpressionError
                                    (newPositionRange startIndex startLine
                                       (Some (if startIndex = endIndex then startIndex + 1
                                              else endIndex))))
                        else Inr (\<lparr>vp_value = vp_value trimed,
                                   vp_position = vp_position trimed,
                                   controllChar = controll\<rparr>, p1))
                | None \<Rightarrow>
                    skipUntilLoop code untilChars allowEmpty startIndex startLine depth
                      (advance code 1 p)))"
  by pat_completeness auto
termination
  by (relation "measure (\<lambda>(code, untilChars, allowEmpty, startIndex, startLine, depth, p).
                  length code - index p)")
     (auto simp: currentChar_def dest!: getCharAt_Some_less)

declare skipUntilLoop.simps [simp del]

definition skipUntilAndWith ::
  "string \<Rightarrow> string list \<Rightarrow> bool \<Rightarrow> Parser \<Rightarrow> ParserError + (Scanned \<times> Parser)"
where
  "skipUntilAndWith code untilChars allowEmpty p =
     skipUntilLoop code untilChars allowEmpty (index p) (line p) 0 p"

lemma areNextCharsFrom_take:
  "areNextCharsFrom code i controll = (take (length controll) (drop i code) = controll)"
proof (induction controll arbitrary: i)
  case Nil
  show ?case by simp
next
  case (Cons c cs)
  show ?case
  proof (cases "i < length code")
    case True
    then have "drop i code = code ! i # drop (Suc i) code"
      by (simp add: Cons_nth_drop_Suc)
    with True Cons show ?thesis
      by (auto simp: getCharAt_def)
  next
    case False
    then show ?thesis by (simp add: getCharAt_def)
  qed
qed

lemma areNextCharsFrom_bound:
  "areNextCharsFrom code i controll \<Longrightarrow> controll \<noteq> [] \<Longrightarrow> i + length controll \<le> length code"
proof -
  assume a: "areNextCharsFrom code i controll" and n: "controll \<noteq> []"
  from a have "length (take (length controll) (drop i code)) = length controll"
    by (simp add: areNextCharsFrom_take)
  with n show ?thesis by (cases "i < length code") auto
qed

text \<open>
  A scan that returns has stopped at one of its terminators and has moved the cursor
  past it, within the template.
\<close>

lemma skipUntilLoop_Inr:
  "skipUntilLoop code untilChars allowEmpty startIndex startLine depth p = Inr (r, p') \<Longrightarrow>
     controllChar r \<in> set untilChars \<and> index p + length (controllChar r) \<le> index p'
     \<and> index p' \<le> length code"
proof (induction code untilChars allowEmpty startIndex startLine depth p
       rule: skipUntilLoop.induct)
  case (1 code untilChars allowEmpty startIndex startLine depth p)
  note unf = skipUntilLoop.simps [of code untilChars allowEmpty startIndex startLine depth p]
  show ?case
  proof (cases "currentChar code p")
    case None
    with "1.prems" show ?thesis by (simp add: unf)
  next
    case cc: (Some c)
    then have lt: "index p < length code"
      by (auto simp: currentChar_def dest: getCharAt_Some_less)
    show ?thesis
    proof (cases "c \<in> PAREN_START")
      case True
      have "skipUntilLoop code untilChars allowEmpty startIndex startLine (depth + 1)
              (advance code 1 p) = Inr (r, p')"
        using "1.prems" cc True by (simp add: unf)
      from "1.IH"(1)[OF cc True this] show ?thesis by simp
    next
      case notStart: False
      show ?thesis
      proof (cases "depth > 0 \<and> c \<in> PAREN_END")
        case True
        have "skipUntilLoop code untilChars allowEmpty startIndex startLine (depth - 1)
                (advance code 1 p) = Inr (r, p')"
          using "1.prems" cc notStart True by (simp add: unf)
        from "1.IH"(2)[OF cc notStart True this] show ?thesis by simp
      next
        case notEnd: False
        show ?thesis
        proof (cases "if depth = 0 then find (areNextChars code p) untilChars else None")
          case None
          have "skipUntilLoop code untilChars allowEmpty startIndex startLine depth
                  (advance code 1 p) = Inr (r, p')"
            using "1.prems" cc notStart notEnd None by (simp add: unf)
          from "1.IH"(3)[OF cc notStart notEnd None this] show ?thesis by simp
        next
          case (Some controll)
          then have f: "find (areNextChars code p) untilChars = Some controll"
            by (simp split: if_splits)
          then have mem: "controll \<in> set untilChars" and nx: "areNextChars code p controll"
            by (auto simp: find_Some_iff)
          from nx lt have bound: "index p + length controll \<le> length code"
            using areNextCharsFrom_bound [of code "index p" controll]
            by (cases "controll = []") (auto simp: areNextChars_def)
          from cc notStart notEnd Some "1.prems"
          have "controllChar r = controll \<and> p' = advance code (length controll) p"
            by (auto simp: unf Let_def split: if_splits)
          with mem bound show ?thesis by simp
        qed
      qed
    qed
  qed
qed

lemma skipUntilAndWith_Inr:
  "skipUntilAndWith code untilChars allowEmpty p = Inr (r, p') \<Longrightarrow>
     controllChar r \<in> set untilChars \<and> index p + length (controllChar r) \<le> index p'
     \<and> index p' \<le> length code"
  unfolding skipUntilAndWith_def by (rule skipUntilLoop_Inr)

subsection \<open>Argument lists, inline expressions and comments\<close>

text \<open>The \<^verbatim>\<open>do ... while\<close> loop of \<^verbatim>\<open>#parseParams\<close>.\<close>

function parseParamsLoop ::
  "string \<Rightarrow> ValuePosition list \<Rightarrow> Parser \<Rightarrow> ParserError + (ValuePosition list \<times> Parser)"
where
  "parseParamsLoop code parsedArguments p =
     (case skipUntilAndWith code ['','', '')''] True p of
        Inl e \<Rightarrow> Inl e
      | Inr (argument, p') \<Rightarrow>
          (let parsedArguments1 = parsedArguments @
                 [\<lparr>vp_value = vp_value argument, vp_position = vp_position argument\<rparr>]
           in if controllChar argument \<noteq> '')''
              then parseParamsLoop code parsedArguments1 p'
              else Inr (parsedArguments1, p')))"
  by pat_completeness auto
termination
proof (relation "measure (\<lambda>(code, parsedArguments, p). length code - index p)")
  show "wf (measure (\<lambda>(code, parsedArguments, p). length code - index p))" by simp
next
  fix code :: string and parsedArguments :: "ValuePosition list" and p :: Parser
    and b x y xa
  assume "skipUntilAndWith code ['','', '')''] True p = Inr b" and "(x, y) = b"
  then have "skipUntilAndWith code ['','', '')''] True p = Inr (x, y)" by simp
  from skipUntilAndWith_Inr [OF this]
  have "index p < index y \<and> index y \<le> length code" by auto
  then show "((code, xa, y), code, parsedArguments, p)
               \<in> measure (\<lambda>(code, parsedArguments, p). length code - index p)"
    by auto
qed

declare parseParamsLoop.simps [simp del]

definition parseParams ::
  "string \<Rightarrow> nat \<Rightarrow> Parser \<Rightarrow> ParserError + (ValuePosition list \<times> Parser)"
where
  "parseParams code expectedCount p =
     (if currentChar code p \<noteq> Some (CHR ''('')
      then (if expectedCount \<noteq> 0
            then Inl (UnexpectedAmountOfArgumentsError (createPosition p 1) expectedCount 0)
            else Inr ([], p))
      else (case parseParamsLoop code [] (advance code 1 p) of
              Inl e \<Rightarrow> Inl e
            | Inr (parsedArguments, p') \<Rightarrow>
                (let parsedArguments1 =
                       (if parsedArguments \<noteq> [] \<and> length (vp_value (last parsedArguments)) = 0
                        then butlast parsedArguments else parsedArguments)
                 in if expectedCount \<noteq> length parsedArguments1
                    then Inl (UnexpectedAmountOfArgumentsError (createPosition p' 1)
                                expectedCount (length parsedArguments1))
                    else Inr (parsedArguments1, p'))))"

definition makeInlineTsCodeStatement ::
  "string \<Rightarrow> Parser \<Rightarrow> ParserError + (Statement \<times> Parser)"
where
  "makeInlineTsCodeStatement code p =
     (let startIndex = index p;
          startLine = line p;
          isUnsafe = (currentChar code p = Some (CHR ''!''));
          p1 = (if isUnsafe then advance code 1 p else p);
          p2 = advance code 2 p1
      in case skipUntilAndWith code [''}''] True p2 of
           Inl e \<Rightarrow> Inl e
         | Inr (expressionPosValue, p3) \<Rightarrow>
             (case consume code (CHR ''}'') p3 of
                Inl e \<Rightarrow> Inl e
              | Inr p4 \<Rightarrow>
                  (let tsCodeExpression =
                         TsCodeExpression (vp_position expressionPosValue)
                           (vp_value expressionPosValue)
                   in if isUnsafe
                      then Inr (InlineTsCodeStatement
                                  (newPositionRange startIndex startLine (Some (index p4)))
                                  tsCodeExpression, p4)
                      else Inr (InlineSafeTsCodeStatement
                                  (newPositionRange startIndex startLine (Some (index p4)))
                                  tsCodeExpression, p4))))"

definition skipInlineComment :: "string \<Rightarrow> Parser \<Rightarrow> ParserError + Parser" where
  "skipInlineComment code p =
     (case skipUntilAndWith code [''--}}''] True (advance code 4 p) of
        Inl e \<Rightarrow> Inl e
      | Inr (r, p') \<Rightarrow> Inr p')"

lemma skipInlineComment_Inr:
  "skipInlineComment code p = Inr p' \<Longrightarrow> index p + 8 \<le> index p' \<and> index p' \<le> length code"
  by (auto simp: skipInlineComment_def split: sum.splits dest!: skipUntilAndWith_Inr)

subsection \<open>Tags\<close>

text \<open>
  The tags that own a block call \<^verbatim>\<open>#parseUntilStatment\<close>, which calls \<^verbatim>\<open>#parseOnce\<close>,
  which calls \<^verbatim>\<open>#makeAtTag\<close> again. Each function below that reads a block takes the
  block reader as its first argument \<open>pus\<close>; the recursion is closed in
  \<open>parseUntilLoop\<close> further down.
\<close>

type_synonym BlockReader =
  "StatementName list \<Rightarrow> bool \<Rightarrow> Parser \<Rightarrow> (Statement list \<times> Statement \<times> Parser) outcome"

definition makeEachStatement ::
  "BlockReader \<Rightarrow> string \<Rightarrow> nat \<Rightarrow> nat \<Rightarrow> Parser \<Rightarrow> (Statement \<times> Parser) outcome"
where
  "makeEachStatement pus code startIndex startLine p =
     bindE (consume code (CHR ''('') p) (\<lambda>p1.
     bindE (skipUntilAndWith code ['' in '', '')''] False p1) (\<lambda>(variablePosValue, p2).
       if controllChar variablePosValue \<noteq> '' in ''
       then Some (Inl (UnexpctedError
                         (newPositionRange (endp (vp_position variablePosValue)) startLine
                            (Some (endp (vp_position variablePosValue) + 1)))
                         ''in'' (Some '')'')))
       else
     bindE (skipUntilAndWith code ['')''] False p2) (\<lambda>(iteratorPosValue, p3).
       let variable = TsCodeExpression (vp_position variablePosValue) (vp_value variablePosValue);
           iterator = TsCodeExpression (vp_position iteratorPosValue) (vp_value iteratorPosValue)
       in
     bindO (pus [SN_EndStatement] False p3) (\<lambda>(cs, ending, p4).
       Some (Inr (EachStatement (newPositionRange startIndex startLine (Some (index p4)))
                    iterator variable cs, p4))))))"

text \<open>
  The end of an \<^verbatim>\<open>if\<close> or \<^verbatim>\<open>elseif\<close> is \<^verbatim>\<open>next?.position.start || this.#index\<close>: the
  start of the next statement unless that is missing or zero.
\<close>

definition chainEnd :: "Statement option \<Rightarrow> Parser \<Rightarrow> nat" where
  "chainEnd nxt p =
     (case nxt of
        None \<Rightarrow> index p
      | Some n \<Rightarrow> if start (stmtPosition n) = 0 then index p else start (stmtPosition n))"

definition makeIfStatement ::
  "BlockReader \<Rightarrow> string \<Rightarrow> nat \<Rightarrow> nat \<Rightarrow> Parser \<Rightarrow> (Statement \<times> Parser) outcome"
where
  "makeIfStatement pus code startIndex startLine p =
     bindE (consume code (CHR ''('') p) (\<lambda>p1.
     bindE (skipUntilAndWith code ['')''] False p1) (\<lambda>(ifExpressionValuePos, p2).
     bindO (pus [SN_ElseIfStatement, SN_ElseStatement, SN_EndStatement] False p2)
       (\<lambda>(cs, endingStatement, p3).
       let nxt = (if isEndStatement endingStatement then None else Some endingStatement)
       in Some (Inr (IfStatement
                       (newPositionRange startIndex startLine (Some (chainEnd nxt p3)))
                       (TsCodeExpression (vp_position ifExpressionValuePos)
                          (vp_value ifExpressionValuePos))
                       cs nxt, p3)))))"

definition makeElseIfStatement ::
  "BlockReader \<Rightarrow> string \<Rightarrow> nat \<Rightarrow> nat \<Rightarrow> Parser \<Rightarrow> (Statement \<times> Parser) outcome"
where
  "makeElseIfStatement pus code startIndex startLine p =
     bindE (consume code (CHR ''('') p) (\<lambda>p1.
     bindE (skipUntilAndWith code ['')''] False p1) (\<lambda>(ifExpressionValuePos, p2).
     bindO (pus [SN_ElseIfStatement, SN_ElseStatement, SN_EndStatement] False p2)
       (\<lambda>(cs, endingStatement, p3).
       let nxt = (if isEndStatement endingStatement then None else Some endingStatement)
       in Some (Inr (ElseIfStatement
                       (newPositionRange startIndex startLine (Some (chainEnd nxt p3)))
                       (TsCodeExpression (vp_position ifExpressionValuePos)
                          (vp_value ifExpressionValuePos))
                       cs nxt, p3)))))"

definition makeElseStatement ::
  "BlockReader \<Rightarrow> string \<Rightarrow> nat \<Rightarrow> nat \<Rightarrow> Parser \<Rightarrow> (Statement \<times> Parser) outcome"
where
  "makeElseStatement pus code startIndex startLine p =
     bindE (parseParams code 0 p) (\<lambda>(tagParams, p1).
     bindO (pus [SN_EndStatement] False p1) (\<lambda>(cs, ending, p2).
       Some (Inr (ElseStatement (newPositionRange startIndex startLine (Some (index p2))) cs,
                  p2))))"

definition makeLetStatement ::
  "string \<Rightarrow> nat \<Rightarrow> nat \<Rightarrow> Parser \<Rightarrow> (Statement \<times> Parser) outcome"
where
  "makeLetStatement code startIndex startLine p =
     bindE (consume code (CHR ''('') p) (\<lambda>p1.
     bindE (skipUntilAndWith code [''='', '')''] False p1) (\<lambda>(variableNameValuePos, p2).
     bindE (if controllChar variableNameValuePos = ''=''
            then (case skipUntilAndWith code ['')''] False p2 of
                    Inl e \<Rightarrow> Inl e
                  | Inr (v, p3) \<Rightarrow> Inr (Some v, p3))
            else Inr (None, p2)) (\<lambda>(valueValuePos, p3).
       Some (Inr (LetStatement (newPositionRange startIndex startLine (Some (index p3)))
                    (TsCodeExpression (vp_position variableNameValuePos)
                       (vp_value variableNameValuePos))
                    (map_option (\<lambda>v. TsCodeExpression (vp_position v) (vp_value v))
                       valueValuePos), p3)))))"

definition makeAssignStatement ::
  "string \<Rightarrow> nat \<Rightarrow> nat \<Rightarrow> Parser \<Rightarrow> (Statement \<times> Parser) outcome"
where
  "makeAssignStatement code startIndex startLine p =
     bindE (consume code (CHR ''('') p) (\<lambda>p1.
     bindE (skipUntilAndWith code [''=''] False p1) (\<lambda>(variableNameValuePos, p2).
     bindE (skipUntilAndWith code ['')''] False p2) (\<lambda>(valueValuePos, p3).
       Some (Inr (AssignStatement (newPositionRange startIndex startLine (Some (index p3)))
                    (TsCodeExpression (vp_position variableNameValuePos)
                       (vp_value variableNameValuePos))
                    (TsCodeExpression (vp_position valueValuePos) (vp_value valueValuePos)),
                  p3)))))"

definition makeParamStatement ::
  "string \<Rightarrow> nat \<Rightarrow> nat \<Rightarrow> Parser \<Rightarrow> (Statement \<times> Parser) outcome"
where
  "makeParamStatement code startIndex startLine p =
     bindE (consume code (CHR ''('') p) (\<lambda>p1.
     bindE (skipUntilAndWith code ['':''] False p1) (\<lambda>(identifierNameValuePos, p2).
     bindE (skipUntilAndWith code [''='', '')''] False p2) (\<lambda>(typeValuePos, p3).
     bindE (if controllChar typeValuePos = ''=''
            then (case skipUntilAndWith code ['')''] False p3 of
                    Inl e \<Rightarrow> Inl e
                  | Inr (v, p4) \<Rightarrow> Inr (Some v, p4))
            else Inr (None, p3)) (\<lambda>(defaultValuePos, p4).
       Some (Inr (ParamStatement (newPositionRange startIndex startLine (Some (index p4)))
                    (TsCodeExpression (vp_position identifierNameValuePos)
                       (vp_value identifierNameValuePos))
                    (TsCodeExpression (vp_position typeValuePos) (vp_value typeValuePos))
                    (map_option (\<lambda>v. TsCodeExpression (vp_position v) (vp_value v))
                       defaultValuePos), p4))))))"

definition makeImportStatement ::
  "string \<Rightarrow> nat \<Rightarrow> nat \<Rightarrow> Parser \<Rightarrow> (Statement \<times> Parser) outcome"
where
  "makeImportStatement code startIndex startLine p =
     bindE (consume code (CHR ''('') p) (\<lambda>p1.
     bindE (skipUntilAndWith code ['')''] False p1) (\<lambda>(expressionValuePos, p2).
       Some (Inr (ImportStatement (newPositionRange startIndex startLine (Some (index p2)))
                    (TsCodeExpression (vp_position expressionValuePos)
                       (vp_value expressionValuePos)), p2))))"

definition makeDefineSlotStatement ::
  "string \<Rightarrow> nat \<Rightarrow> nat \<Rightarrow> Parser \<Rightarrow> (Statement \<times> Parser) outcome"
where
  "makeDefineSlotStatement code startIndex startLine p =
     bindE (consume code (CHR ''('') p) (\<lambda>p1.
     bindE (skipUntilAndWith code ['':'', '')''] False p1) (\<lambda>(slotNameValuePos, p2).
       if vp_value slotNameValuePos = ''main''
       then Some (Inl (SlotDefinitionNamedMainError (vp_position slotNameValuePos)))
       else
     bindE (if controllChar slotNameValuePos = '':''
            then (case skipUntilAndWith code ['')''] False p2 of
                    Inl e \<Rightarrow> Inl e
                  | Inr (v, p3) \<Rightarrow> Inr (Some v, p3))
            else Inr (None, p2)) (\<lambda>(slotArgumentsValuePos, p3).
       Some (Inr (DefineSlotStatement (newPositionRange startIndex startLine (Some (index p3)))
                    (TsCodeExpression (vp_position slotNameValuePos)
                       (vp_value slotNameValuePos))
                    (map_option (\<lambda>v. TsCodeExpression (vp_position v) (vp_value v))
                       slotArgumentsValuePos), p3)))))"

text \<open>
  \<^verbatim>\<open>#parseParams(2)\<close> returns exactly two arguments, so \<^verbatim>\<open>tagParams[0]\<close> and
  \<^verbatim>\<open>tagParams[1]\<close> are in range.
\<close>

definition makeComponentStatement ::
  "BlockReader \<Rightarrow> string \<Rightarrow> nat \<Rightarrow> nat \<Rightarrow> Parser \<Rightarrow> (Statement \<times> Parser) outcome"
where
  "makeComponentStatement pus code startIndex startLine p =
     bindE (parseParams code 2 p) (\<lambda>(tagParams, p1).
       let componentNameValuePos = tagParams ! 0;
           componentParamsValuePos = tagParams ! 1
       in
     bindO (pus [SN_EndStatement] True p1) (\<lambda>(statements, ending, p2).
       let slots = filter (\<lambda>slot. isComponentSlotStatement slot) statements;
           mainSlotChildren = filter (\<lambda>slot. \<not> isComponentSlotStatement slot) statements
       in Some (Inr (ComponentStatement
                       (newPositionRange startIndex startLine (Some (index p2)))
                       (TsCodeExpression (vp_position componentNameValuePos)
                          (vp_value componentNameValuePos))
                       (TsCodeExpression (vp_position componentParamsValuePos)
                          (vp_value componentParamsValuePos))
                       (ComponentMainSlotStatement
                          (newPositionRange startIndex startLine (Some (index p2)))
                          mainSlotChildren)
                       slots, p2))))"

definition makeComponentSlotStatement ::
  "BlockReader \<Rightarrow> string \<Rightarrow> nat \<Rightarrow> nat \<Rightarrow> Parser \<Rightarrow> (Statement \<times> Parser) outcome"
where
  "makeComponentSlotStatement pus code startIndex startLine p =
     bindE (consume code (CHR ''('') p) (\<lambda>p1.
     bindE (skipUntilAndWith code ['','', '')''] False p1) (\<lambda>(slotNameValuePos, p2).
     bindE (if controllChar slotNameValuePos = '',''
            then (case skipUntilAndWith code ['')''] False p2 of
                    Inl e \<Rightarrow> Inl e
                  | Inr (v, p3) \<Rightarrow> Inr (Some v, p3))
            else Inr (None, p2)) (\<lambda>(slotParamsVariableValuePos, p3).
     bindO (pus [SN_EndStatement] False p3) (\<lambda>(cs, ending, p4).
       Some (Inr (ComponentSlotStatement
                    (newPositionRange startIndex startLine (Some (index p4)))
                    (TsCodeExpression (vp_position slotNameValuePos)
                       (vp_value slotNameValuePos))
                    (map_option (\<lambda>v. TsCodeExpression (vp_position v) (vp_value v))
                       slotParamsVariableValuePos)
                    cs, p4))))))"

text \<open>The loop of \<^verbatim>\<open>#makeAtTag\<close> that reads the tag name.\<close>

function tagNameLoop :: "string \<Rightarrow> Parser \<Rightarrow> Parser" where
  "tagNameLoop code p =
     (case currentChar code p of
        None \<Rightarrow> p
      | Some c \<Rightarrow> if isValidTagChar c then tagNameLoop code (advance code 1 p) else p)"
  by pat_completeness auto
termination
  by (relation "measure (\<lambda>(code, p). length code - index p)")
     (auto simp: currentChar_def dest!: getCharAt_Some_less)

declare tagNameLoop.simps [simp del]

definition makeAtTag ::
  "BlockReader \<Rightarrow> string \<Rightarrow> bool \<Rightarrow> bool \<Rightarrow> bool \<Rightarrow> bool \<Rightarrow> Parser \<Rightarrow> (Statement \<times> Parser) outcome"
where
  "makeAtTag pus code allowImportStatements allowDefineSlotStatement allowParamStatement
     allowSlotStatement p =
     (let startIndex = index p;
          startLine = line p;
          p1 = advance code 1 p;
          tagNameStartIndex = index p1;
          p2 = tagNameLoop code p1;
          tagNameEndIndex = index p2;
          tagName = slice code tagNameStartIndex tagNameEndIndex
      in if tagName = ''each'' then makeEachStatement pus code startIndex startLine p2
         else if tagName = ''if'' then makeIfStatement pus code startIndex startLine p2
         else if tagName = ''elseif'' then makeElseIfStatement pus code startIndex startLine p2
         else if tagName = ''else'' then makeElseStatement pus code startIndex startLine p2
         else if tagName = ''let'' then makeLetStatement code startIndex startLine p2
         else if tagName = ''assign'' then makeAssignStatement code startIndex startLine p2
         else if tagName = ''component''
           then makeComponentStatement pus code startIndex startLine p2
         else if tagName = ''import''
           then (if \<not> allowImportStatements
                 then Some (Inl (InvalidImportSlotsParamsOrder
                                   (newPositionRange startIndex startLine (Some (index p2)))))
                 else makeImportStatement code startIndex startLine p2)
         else if tagName = ''param''
           then (if \<not> allowParamStatement
                 then Some (Inl (InvalidImportSlotsParamsOrder
                                   (newPositionRange startIndex startLine (Some (index p2)))))
                 else makeParamStatement code startIndex startLine p2)
         else if tagName = ''defslot''
           then (if \<not> allowDefineSlotStatement
                 then Some (Inl (InvalidImportSlotsParamsOrder
                                   (newPositionRange startIndex startLine (Some (index p2)))))
                 else makeDefineSlotStatement code startIndex startLine p2)
         else if tagName = ''slot''
           then (if \<not> allowSlotStatement
                 then Some (Inl (SlotOutsideComponenterror
                                   (newPositionRange startIndex startLine (Some (index p2)))))
                 else makeComponentSlotStatement pus code startIndex startLine p2)
         else if tagName = ''end''
           then Some (Inr (EndStatement
                             (newPositionRange startIndex startLine (Some (index p2))), p2))
         else Some (Inl (InvalidTagNameError
                           (newPositionRange startIndex startLine (Some (index p2))) tagName)))"

subsection \<open>One statement\<close>

record Accumilator =
  acc_value :: string
  startIndex :: nat
  startLine :: nat

definition makeAccumilator :: "Accumilator \<Rightarrow> Parser \<Rightarrow> Statement" where
  "makeAccumilator accumilator p =
     TextStatement
       (newPositionRange (startIndex accumilator) (startLine accumilator) (Some (index p)))
       (acc_value accumilator)"

text \<open>
  The loop of \<^verbatim>\<open>#parseOnce\<close>, one branch of the function per branch of the loop body, in
  the order of the source. The second disjunct of the opener test reads \<^verbatim>\<open>peek()\<close>
  twice, as the source does.
\<close>

function parseOnceLoop ::
  "BlockReader \<Rightarrow> string \<Rightarrow> bool \<Rightarrow> bool \<Rightarrow> bool \<Rightarrow> bool \<Rightarrow> Accumilator \<Rightarrow> Parser
     \<Rightarrow> (Statement \<times> Parser) outcome"
where
  "parseOnceLoop pus code allowImportStatements allowDefineSlotStatement allowParamStatement
     allowSlotStatement accumilator p =
     (case currentChar code p of
        None \<Rightarrow> Some (Inr (makeAccumilator accumilator p, p))
      | Some c \<Rightarrow>
          if c = CHR 0x5C \<and> peek code 1 p = Some (CHR ''{'') \<and> peek code 2 p = Some (CHR ''{'')
          then parseOnceLoop pus code allowImportStatements allowDefineSlotStatement
                 allowParamStatement allowSlotStatement accumilator (advance code 3 p)
          else if (c = CHR ''{'' \<and> peek code 1 p = Some (CHR ''{''))
                  \<or> (c = CHR ''!'' \<and> peek code 1 p = Some (CHR ''{'')
                      \<and> peek code 1 p = Some (CHR ''{''))
          then (if acc_value accumilator \<noteq> []
                then Some (Inr (makeAccumilator accumilator p, p))
                else if peek code 2 p = Some (CHR ''-'') \<and> peek code 3 p = Some (CHR ''-'')
                then (case skipInlineComment code p of
                        Inl e \<Rightarrow> Some (Inl e)
                      | Inr p' \<Rightarrow>
                          parseOnceLoop pus code allowImportStatements allowDefineSlotStatement
                            allowParamStatement allowSlotStatement accumilator p')
                else Some (makeInlineTsCodeStatement code p))
          else if c = CHR 0x5C \<and> peek code 1 p = Some (CHR ''@'')
          then parseOnceLoop pus code allowImportStatements allowDefineSlotStatement
                 allowParamStatement allowSlotStatement accumilator (advance code 2 p)
          else if c = CHR ''@''
          then (if acc_value accumilator \<noteq> []
                then Some (Inr (makeAccumilator accumilator p, p))
                else makeAtTag pus code allowImportStatements allowDefineSlotStatement
                       allowParamStatement allowSlotStatement p)
          else parseOnceLoop pus code allowImportStatements allowDefineSlotStatement
                 allowParamStatement allowSlotStatement
                 (accumilator\<lparr>acc_value := acc_value accumilator @ [c]\<rparr>)
                 (advance code 1 p))"
  by pat_completeness auto
termination
proof (relation "measure (\<lambda>(pus, code, ai, ad, ap, as, accumilator, p). length code - index p)",
       goal_cases)
  case 1
  show ?case by simp
next
  case (2 pus code ai ad ap as accumilator p c)
  then show ?case by (auto simp: currentChar_def dest!: getCharAt_Some_less)
next
  case (3 pus code ai ad ap as accumilator p c p')
  from skipInlineComment_Inr [OF 3(6)]
  have "index p < index p' \<and> index p' \<le> length code" by simp
  then show ?case by auto
next
  case (4 pus code ai ad ap as accumilator p c)
  then show ?case by (auto simp: currentChar_def dest!: getCharAt_Some_less)
next
  case (5 pus code ai ad ap as accumilator p c)
  then show ?case by (auto simp: currentChar_def dest!: getCharAt_Some_less)
qed

declare parseOnceLoop.simps [simp del]

definition parseOnce ::
  "BlockReader \<Rightarrow> string \<Rightarrow> bool \<Rightarrow> bool \<Rightarrow> bool \<Rightarrow> bool \<Rightarrow> Parser \<Rightarrow> (Statement \<times> Parser) outcome"
where
  "parseOnce pus code allowImportStatements allowDefineSlotStatement allowParamStatement
     allowSlotStatement p =
     parseOnceLoop pus code allowImportStatements allowDefineSlotStatement allowParamStatement
       allowSlotStatement \<lparr>acc_value = [], startIndex = index p, startLine = line p\<rparr> p"

subsection \<open>Blocks\<close>

fun joinStrings :: "string \<Rightarrow> string list \<Rightarrow> string" where
  "joinStrings sep [] = []"
| "joinStrings sep [x] = x"
| "joinStrings sep (x # y # ys) = x @ sep @ joinStrings sep (y # ys)"

text \<open>
  The loop of \<^verbatim>\<open>#parseUntilStatment\<close>. Its first argument bounds the number of nested
  calls and loop rounds that remain; the nested calls inside \<^verbatim>\<open>#parseOnce\<close> get one
  less. \<open>None\<close> is returned only when the bound is used up.
\<close>

fun parseUntilLoop ::
  "nat \<Rightarrow> string \<Rightarrow> StatementName list \<Rightarrow> bool \<Rightarrow> Statement list \<Rightarrow> Parser
     \<Rightarrow> (Statement list \<times> Statement \<times> Parser) outcome"
where
  "parseUntilLoop 0 code statementNames allowSlotStatement statements p = None"
| "parseUntilLoop (Suc fuel) code statementNames allowSlotStatement statements p =
     (if isAtEnd code p
      then Some (Inl (UnexpctedError (createPosition p 1)
                        (joinStrings '','' (map statementNameString statementNames)) None))
      else (case parseOnce (\<lambda>names allow q. parseUntilLoop fuel code names allow [] q) code
                   False False False allowSlotStatement p of
              None \<Rightarrow> None
            | Some (Inl e) \<Rightarrow> Some (Inl e)
            | Some (Inr (statement, p')) \<Rightarrow>
                if name statement \<in> set statementNames
                then Some (Inr (statements, statement, p'))
                else parseUntilLoop fuel code statementNames allowSlotStatement
                       (statements @ [statement]) p'))"

declare parseUntilLoop.simps [simp del]

definition parseUntilStatment :: "nat \<Rightarrow> string \<Rightarrow> BlockReader" where
  "parseUntilStatment fuel code statementNames allowSlotStatement p =
     parseUntilLoop fuel code statementNames allowSlotStatement [] p"

subsection \<open>The cursor only moves forward\<close>

text \<open>
  A block reader is \<open>nondecreasing\<close> when a call that returns leaves the cursor at or
  after the place where it started.
\<close>

definition nondecreasing :: "BlockReader \<Rightarrow> bool" where
  "nondecreasing pus =
     (\<forall>names allow q cs e q'. pus names allow q = Some (Inr (cs, e, q')) \<longrightarrow> index q \<le> index q')"

lemma nondecreasingD:
  "nondecreasing pus \<Longrightarrow> pus names allow q = Some (Inr (cs, e, q')) \<Longrightarrow> index q \<le> index q'"
  unfolding nondecreasing_def by blast

lemma consume_Inr: "consume code c p = Inr p' \<Longrightarrow> index p' = index p + 1"
  by (auto simp: consume_def split: if_splits)

lemma skipUntilAndWith_le:
  "skipUntilAndWith code untilChars allowEmpty p = Inr (r, p') \<Longrightarrow> index p \<le> index p'"
  by (drule skipUntilAndWith_Inr) simp

lemma parseParamsLoop_le:
  "parseParamsLoop code parsedArguments p = Inr (r, p') \<Longrightarrow> index p \<le> index p'"
proof (induction code parsedArguments p rule: parseParamsLoop.induct)
  case (1 code parsedArguments p)
  note unf = parseParamsLoop.simps [of code parsedArguments p]
  show ?case
  proof (cases "skipUntilAndWith code ['','', '')''] True p")
    case (Inl e)
    with "1.prems" show ?thesis by (simp add: unf)
  next
    case (Inr b)
    obtain argument q where b: "b = (argument, q)" by (cases b)
    from Inr b have le: "index p \<le> index q" by (auto dest: skipUntilAndWith_le)
    show ?thesis
    proof (cases "controllChar argument \<noteq> '')''")
      case True
      have "parseParamsLoop code
              (parsedArguments @ [\<lparr>vp_value = vp_value argument,
                                   vp_position = vp_position argument\<rparr>]) q = Inr (r, p')"
        using "1.prems" Inr b True by (simp add: unf Let_def)
      from "1.IH" [OF Inr b [symmetric] refl True this] le show ?thesis by simp
    next
      case False
      with "1.prems" Inr b le show ?thesis by (simp add: unf Let_def)
    qed
  qed
qed

lemma parseParams_le: "parseParams code n p = Inr (r, p') \<Longrightarrow> index p \<le> index p'"
  by (auto simp: parseParams_def Let_def split: if_splits sum.splits
           dest!: parseParamsLoop_le)

lemma tagNameLoop_le: "index p \<le> index (tagNameLoop code p)"
proof (induction code p rule: tagNameLoop.induct)
  case (1 code p)
  note unf = tagNameLoop.simps [of code p]
  show ?case
  proof (cases "currentChar code p")
    case None
    then show ?thesis by (simp add: unf)
  next
    case (Some c)
    show ?thesis
    proof (cases "isValidTagChar c")
      case True
      from "1.IH" [OF Some True] Some True show ?thesis by (simp add: unf)
    next
      case False
      with Some show ?thesis by (simp add: unf)
    qed
  qed
qed

lemma makeInlineTsCodeStatement_less:
  "makeInlineTsCodeStatement code p = Inr (s, p') \<Longrightarrow> index p < index p'"
  by (auto simp: makeInlineTsCodeStatement_def Let_def split: sum.splits if_splits
           dest!: skipUntilAndWith_le consume_Inr)

lemmas bind_defs = bindE_def bindO_def

lemma makeEachStatement_le:
  assumes nd: "nondecreasing pus" and eq: "makeEachStatement pus code si sl p = Some (Inr (s, p'))"
  shows "index p \<le> index p'"
  using eq
  by (auto simp: makeEachStatement_def bind_defs Let_def
           split: sum.splits option.splits if_splits
           dest!: skipUntilAndWith_le consume_Inr nondecreasingD [OF nd])

lemma makeIfStatement_le:
  assumes nd: "nondecreasing pus" and eq: "makeIfStatement pus code si sl p = Some (Inr (s, p'))"
  shows "index p \<le> index p'"
  using eq
  by (auto simp: makeIfStatement_def bind_defs Let_def
           split: sum.splits option.splits if_splits
           dest!: skipUntilAndWith_le consume_Inr nondecreasingD [OF nd])

lemma makeElseIfStatement_le:
  assumes nd: "nondecreasing pus" and eq: "makeElseIfStatement pus code si sl p = Some (Inr (s, p'))"
  shows "index p \<le> index p'"
  using eq
  by (auto simp: makeElseIfStatement_def bind_defs Let_def
           split: sum.splits option.splits if_splits
           dest!: skipUntilAndWith_le consume_Inr nondecreasingD [OF nd])

lemma makeElseStatement_le:
  assumes nd: "nondecreasing pus" and eq: "makeElseStatement pus code si sl p = Some (Inr (s, p'))"
  shows "index p \<le> index p'"
  using eq
  by (auto simp: makeElseStatement_def bind_defs Let_def
           split: sum.splits option.splits if_splits
           dest!: parseParams_le nondecreasingD [OF nd])

lemma makeLetStatement_le:
  "makeLetStatement code si sl p = Some (Inr (s, p')) \<Longrightarrow> index p \<le> index p'"
  by (auto simp: makeLetStatement_def bind_defs Let_def
           split: sum.splits option.splits if_splits
           dest!: skipUntilAndWith_le consume_Inr)

lemma makeAssignStatement_le:
  "makeAssignStatement code si sl p = Some (Inr (s, p')) \<Longrightarrow> index p \<le> index p'"
  by (auto simp: makeAssignStatement_def bind_defs Let_def
           split: sum.splits option.splits if_splits
           dest!: skipUntilAndWith_le consume_Inr)

lemma makeParamStatement_le:
  "makeParamStatement code si sl p = Some (Inr (s, p')) \<Longrightarrow> index p \<le> index p'"
  by (auto simp: makeParamStatement_def bind_defs Let_def
           split: sum.splits option.splits if_splits
           dest!: skipUntilAndWith_le consume_Inr)

lemma makeImportStatement_le:
  "makeImportStatement code si sl p = Some (Inr (s, p')) \<Longrightarrow> index p \<le> index p'"
  by (auto simp: makeImportStatement_def bind_defs Let_def
           split: sum.splits option.splits if_splits
           dest!: skipUntilAndWith_le consume_Inr)

lemma makeDefineSlotStatement_le:
  "makeDefineSlotStatement code si sl p = Some (Inr (s, p')) \<Longrightarrow> index p \<le> index p'"
  by (auto simp: makeDefineSlotStatement_def bind_defs Let_def
           split: sum.splits option.splits if_splits
           dest!: skipUntilAndWith_le consume_Inr)

lemma makeComponentStatement_le:
  assumes nd: "nondecreasing pus" and eq: "makeComponentStatement pus code si sl p = Some (Inr (s, p'))"
  shows "index p \<le> index p'"
  using eq
  by (auto simp: makeComponentStatement_def bind_defs Let_def
           split: sum.splits option.splits if_splits
           dest!: parseParams_le nondecreasingD [OF nd])

lemma makeComponentSlotStatement_le:
  assumes nd: "nondecreasing pus" and eq: "makeComponentSlotStatement pus code si sl p = Some (Inr (s, p'))"
  shows "index p \<le> index p'"
  using eq
  by (auto simp: makeComponentSlotStatement_def bind_defs Let_def
           split: sum.splits option.splits if_splits
           dest!: skipUntilAndWith_le consume_Inr nondecreasingD [OF nd])

lemmas make_le =
  makeEachStatement_le makeIfStatement_le makeElseIfStatement_le makeElseStatement_le
  makeLetStatement_le makeAssignStatement_le makeParamStatement_le makeImportStatement_le
  makeDefineSlotStatement_le makeComponentStatement_le makeComponentSlotStatement_le

lemma makeAtTag_less:
  assumes "nondecreasing pus" and "makeAtTag pus code ai ad ap as p = Some (Inr (s, p'))"
  shows "index p < index p'"
proof -
  have "index p < index (tagNameLoop code (advance code 1 p))"
    using tagNameLoop_le [of "advance code 1 p" code] by simp
  moreover have "index (tagNameLoop code (advance code 1 p)) \<le> index p'"
    using assms
    by (auto simp: makeAtTag_def Let_def split: if_splits dest: make_le)
  ultimately show ?thesis by simp
qed

subsection \<open>The text scan on its own\<close>

text \<open>
  For the proofs, the loop of \<^verbatim>\<open>#parseOnce\<close> is split in two: \<open>textScan\<close> is the same
  loop with the same tests in the same order, but it only says where the loop stops and
  why; \<open>afterScan\<close> then builds the statement. \<open>parseOnceLoop_textScan\<close> shows that
  the source's loop is the composition of the two.
\<close>

datatype Stop =
    StopText Accumilator Parser
  | StopInline Parser
  | StopTag Parser
  | StopError ParserError

function textScan :: "string \<Rightarrow> Accumilator \<Rightarrow> Parser \<Rightarrow> Stop" where
  "textScan code accumilator p =
     (case currentChar code p of
        None \<Rightarrow> StopText accumilator p
      | Some c \<Rightarrow>
          if c = CHR 0x5C \<and> peek code 1 p = Some (CHR ''{'') \<and> peek code 2 p = Some (CHR ''{'')
          then textScan code accumilator (advance code 3 p)
          else if (c = CHR ''{'' \<and> peek code 1 p = Some (CHR ''{''))
                  \<or> (c = CHR ''!'' \<and> peek code 1 p = Some (CHR ''{'')
                      \<and> peek code 1 p = Some (CHR ''{''))
          then (if acc_value accumilator \<noteq> []
                then StopText accumilator p
                else if peek code 2 p = Some (CHR ''-'') \<and> peek code 3 p = Some (CHR ''-'')
                then (case skipInlineComment code p of
                        Inl e \<Rightarrow> StopError e
                      | Inr p' \<Rightarrow> textScan code accumilator p')
                else StopInline p)
          else if c = CHR 0x5C \<and> peek code 1 p = Some (CHR ''@'')
          then textScan code accumilator (advance code 2 p)
          else if c = CHR ''@''
          then (if acc_value accumilator \<noteq> [] then StopText accumilator p else StopTag p)
          else textScan code (accumilator\<lparr>acc_value := acc_value accumilator @ [c]\<rparr>)
                 (advance code 1 p))"
  by pat_completeness auto
termination
proof (relation "measure (\<lambda>(code, accumilator, p). length code - index p)", goal_cases)
  case 1
  show ?case by simp
next
  case (2 code accumilator p c)
  then show ?case by (auto simp: currentChar_def dest!: getCharAt_Some_less)
next
  case (3 code accumilator p c p')
  from skipInlineComment_Inr [OF 3(6)]
  have "index p < index p' \<and> index p' \<le> length code" by simp
  then show ?case by auto
next
  case (4 code accumilator p c)
  then show ?case by (auto simp: currentChar_def dest!: getCharAt_Some_less)
next
  case (5 code accumilator p c)
  then show ?case by (auto simp: currentChar_def dest!: getCharAt_Some_less)
qed

declare textScan.simps [simp del]

definition afterScan ::
  "BlockReader \<Rightarrow> string \<Rightarrow> bool \<Rightarrow> bool \<Rightarrow> bool \<Rightarrow> bool \<Rightarrow> Stop \<Rightarrow> (Statement \<times> Parser) outcome"
where
  "afterScan pus code ai ad ap as st =
     (case st of
        StopText a q \<Rightarrow> Some (Inr (makeAccumilator a q, q))
      | StopInline q \<Rightarrow> Some (makeInlineTsCodeStatement code q)
      | StopTag q \<Rightarrow> makeAtTag pus code ai ad ap as q
      | StopError e \<Rightarrow> Some (Inl e))"

lemma parseOnceLoop_textScan:
  "parseOnceLoop pus code ai ad ap as accumilator p =
     afterScan pus code ai ad ap as (textScan code accumilator p)"
proof (induction code accumilator p rule: textScan.induct)
  case (1 code accumilator p)
  note unfL = parseOnceLoop.simps [of pus code ai ad ap as accumilator p]
  note unfR = textScan.simps [of code accumilator p]
  show ?case
  proof (cases "currentChar code p")
    case None
    then show ?thesis by (simp add: unfL unfR afterScan_def)
  next
    case (Some c)
    show ?thesis
      using Some "1.IH"
      by (auto simp: unfL unfR afterScan_def split: sum.splits)
  qed
qed


lemma textScan_le:
  "(textScan code accumilator p = StopText a q \<longrightarrow>
      index p \<le> index q
      \<and> (acc_value accumilator = [] \<longrightarrow> currentChar code p \<noteq> None \<longrightarrow> index p < index q))
   \<and> (textScan code accumilator p = StopInline q \<longrightarrow> index p \<le> index q)
   \<and> (textScan code accumilator p = StopTag q \<longrightarrow> index p \<le> index q)"
proof (induction code accumilator p rule: textScan.induct)
  case (1 code accumilator p)
  note unfR = textScan.simps [of code accumilator p]
  show ?case
  proof (cases "currentChar code p")
    case None
    then show ?thesis by (auto simp: unfR)
  next
    case cc: (Some c)
    show ?thesis
    proof (cases "c = CHR 0x5C \<and> peek code 1 p = Some (CHR ''{'') \<and> peek code 2 p = Some (CHR ''{'')")
      case esc: True
      have eq: "textScan code accumilator p = textScan code accumilator (advance code 3 p)"
        by (simp only: unfR cc option.case if_P [OF esc])
      from "1.IH"(1) [OF cc esc] show ?thesis unfolding eq by auto
    next
      case nesc: False
      show ?thesis
      proof (cases "(c = CHR ''{'' \<and> peek code 1 p = Some (CHR ''{''))
                  \<or> (c = CHR ''!'' \<and> peek code 1 p = Some (CHR ''{'')
                      \<and> peek code 1 p = Some (CHR ''{''))")
        case opener: True
        show ?thesis
        proof (cases "acc_value accumilator \<noteq> []")
          case True
          have "textScan code accumilator p = StopText accumilator p"
            by (simp only: unfR cc option.case if_not_P [OF nesc] if_P [OF opener] if_P [OF True])
          with True show ?thesis by auto
        next
          case empty: False
          show ?thesis
          proof (cases "peek code 2 p = Some (CHR ''-'') \<and> peek code 3 p = Some (CHR ''-'')")
            case comment: True
            show ?thesis
            proof (cases "skipInlineComment code p")
              case (Inl e)
              have "textScan code accumilator p = StopError e"
                by (simp only: unfR cc option.case if_not_P [OF nesc] if_P [OF opener] if_not_P [OF empty] if_P [OF comment] Inl sum.case)
              then show ?thesis by simp
            next
              case (Inr p')
              have eq: "textScan code accumilator p = textScan code accumilator p'"
                by (simp only: unfR cc option.case if_not_P [OF nesc] if_P [OF opener] if_not_P [OF empty] if_P [OF comment] Inr sum.case)
              from skipInlineComment_Inr [OF Inr] have "index p < index p'" by simp
              with "1.IH"(2) [OF cc nesc opener empty comment Inr] show ?thesis
                unfolding eq by auto
            qed
          next
            case False
            have "textScan code accumilator p = StopInline p"
              by (simp only: unfR cc option.case if_not_P [OF nesc] if_P [OF opener] if_not_P [OF empty] if_not_P [OF False])
            then show ?thesis by simp
          qed
        qed
      next
        case nopener: False
        show ?thesis
        proof (cases "c = CHR 0x5C \<and> peek code 1 p = Some (CHR ''@'')")
          case escAt: True
          have eq: "textScan code accumilator p = textScan code accumilator (advance code 2 p)"
            by (simp only: unfR cc option.case if_not_P [OF nesc] if_not_P [OF nopener] if_P [OF escAt])
          from "1.IH"(3) [OF cc nesc nopener escAt] show ?thesis unfolding eq by auto
        next
          case nescAt: False
          show ?thesis
          proof (cases "c = CHR ''@''")
            case at: True
            have "textScan code accumilator p =
                    (if acc_value accumilator \<noteq> [] then StopText accumilator p else StopTag p)"
              by (simp only: unfR cc option.case if_not_P [OF nesc] if_not_P [OF nopener] if_not_P [OF nescAt] if_P [OF at])
            then show ?thesis by auto
          next
            case nat: False
            have eq: "textScan code accumilator p =
                        textScan code (accumilator\<lparr>acc_value := acc_value accumilator @ [c]\<rparr>)
                          (advance code 1 p)"
              by (simp only: unfR cc option.case if_not_P [OF nesc] if_not_P [OF nopener] if_not_P [OF nescAt] if_not_P [OF nat])
            from "1.IH"(4) [OF cc nesc nopener nescAt nat] show ?thesis unfolding eq by auto
          qed
        qed
      qed
    qed
  qed
qed

lemma parseOnceLoop_progress:
  assumes nd: "nondecreasing pus"
    and eq: "parseOnceLoop pus code ai ad ap as accumilator p = Some (Inr (s, p'))"
  shows "index p \<le> index p'
         \<and> (acc_value accumilator = [] \<longrightarrow> currentChar code p \<noteq> None \<longrightarrow> index p < index p')"
proof (cases "textScan code accumilator p")
  case (StopText a q)
  with eq have "p' = q" by (simp add: parseOnceLoop_textScan afterScan_def)
  with textScan_le [of code accumilator p a q] StopText show ?thesis by simp
next
  case (StopInline q)
  with eq have "makeInlineTsCodeStatement code q = Inr (s, p')"
    by (simp add: parseOnceLoop_textScan afterScan_def)
  from makeInlineTsCodeStatement_less [OF this] textScan_le [of code accumilator p _ q] StopInline
  show ?thesis by simp
next
  case (StopTag q)
  with eq have "makeAtTag pus code ai ad ap as q = Some (Inr (s, p'))"
    by (simp add: parseOnceLoop_textScan afterScan_def)
  from makeAtTag_less [OF nd this] textScan_le [of code accumilator p _ q] StopTag
  show ?thesis by simp
next
  case (StopError e)
  with eq show ?thesis by (simp add: parseOnceLoop_textScan afterScan_def)
qed

lemma parseOnce_less:
  assumes "nondecreasing pus" and "\<not> isAtEnd code p"
    and "parseOnce pus code ai ad ap as p = Some (Inr (s, p'))"
  shows "index p < index p'"
  using parseOnceLoop_progress [OF assms(1) assms(3) [unfolded parseOnce_def]] assms(2)
  by (simp add: isAtEnd_def)

lemma parseUntilLoop_less:
  "parseUntilLoop fuel code names allow stmts p = Some (Inr (cs, e, p')) \<Longrightarrow> index p < index p'"
proof (induction fuel arbitrary: names allow stmts p cs e p')
  case 0
  then show ?case by (simp add: parseUntilLoop.simps)
next
  case (Suc fuel)
  let ?pus = "\<lambda>names allow q. parseUntilLoop fuel code names allow [] q"
  note unf = parseUntilLoop.simps(2) [of fuel code names allow stmts p]
  have nd: "nondecreasing ?pus"
    unfolding nondecreasing_def by (blast dest: Suc.IH less_imp_le)
  from Suc.prems have notEnd: "\<not> isAtEnd code p" by (auto simp: unf split: if_splits)
  from Suc.prems notEnd obtain s p1 where
    once: "parseOnce ?pus code False False False allow p = Some (Inr (s, p1))"
    by (auto simp: unf split: option.splits sum.splits)
  from parseOnce_less [OF nd notEnd once] have lt: "index p < index p1" .
  show ?case
  proof (cases "name s \<in> set names")
    case True
    with Suc.prems notEnd once have "p' = p1" by (simp add: unf)
    with lt show ?thesis by simp
  next
    case False
    with Suc.prems notEnd once
    have "parseUntilLoop fuel code names allow (stmts @ [s]) p1 = Some (Inr (cs, e, p'))"
      by (simp add: unf)
    from Suc.IH [OF this] lt show ?thesis by simp
  qed
qed

lemma nondecreasing_parseUntilStatment: "nondecreasing (parseUntilStatment fuel code)"
  unfolding nondecreasing_def parseUntilStatment_def
  by (blast dest: parseUntilLoop_less less_imp_le)

subsection \<open>The top level\<close>

text \<open>
  The loop of \<^verbatim>\<open>parse\<close>, with the statement list and the three gates as its state. The
  bound \<open>fuel\<close> is only handed on to the block reader.
\<close>

function parseLoop ::
  "nat \<Rightarrow> string \<Rightarrow> Statement list \<Rightarrow> bool \<Rightarrow> bool \<Rightarrow> bool \<Rightarrow> Parser \<Rightarrow> (Statement list) outcome"
where
  "parseLoop fuel code statements allowImportStatements allowDefineSlotStatement
     allowParamStatement p =
     (if isAtEnd code p then Some (Inr statements)
      else (case parseOnce (parseUntilStatment fuel code) code allowImportStatements
                   allowDefineSlotStatement allowParamStatement False p of
              None \<Rightarrow> None
            | Some (Inl e) \<Rightarrow> Some (Inl e)
            | Some (Inr (statement, p')) \<Rightarrow>
                (let allowImportStatements1 =
                       (if allowImportStatements
                           \<and> \<not> areImportStatementsAllowedAfter (name statement)
                        then False else allowImportStatements);
                     allowDefineSlotStatement1 =
                       (if allowDefineSlotStatement
                           \<and> \<not> areDefineSlotStatementsAllowedAfter (name statement)
                        then False else allowDefineSlotStatement);
                     allowParamStatement1 =
                       (if allowParamStatement
                           \<and> \<not> areParamStatementsAllowedAfter (name statement)
                        then False else allowParamStatement)
                 in if hasToBeHandledInParse statement
                    then Some (Inl (DisalowedTagContexError (stmtPosition statement)
                                      (name statement)))
                    else parseLoop fuel code (statements @ [statement]) allowImportStatements1
                           allowDefineSlotStatement1 allowParamStatement1 p')))"
  by pat_completeness auto
termination
proof (relation "measure (\<lambda>(fuel, code, statements, ai, ad, ap, p). length code - index p)",
       goal_cases)
  case 1
  show ?case by simp
next
  case (2 fuel code statements ai ad ap p x2 x statement p')
  then have once: "parseOnce (parseUntilStatment fuel code) code ai ad ap False p
                     = Some (Inr (statement, p'))"
    by simp
  from 2(1) have "index p < length code"
    by (simp add: isAtEnd_def currentChar_def getCharAt_def split: if_splits)
  with parseOnce_less [OF nondecreasing_parseUntilStatment 2(1) once] show ?case by simp
qed

declare parseLoop.simps [simp del]

text \<open>
  \<^verbatim>\<open>new Parser(code, filePath).parse()\<close>. No block is nested deeper than the template is
  long, so the length of the template is a bound that is never reached (lemma
  \<open>parseLoop_Some\<close> below).
\<close>

definition parse :: "string \<Rightarrow> (Statement list) outcome" where
  "parse code = parseLoop (length code) code [] True True True \<lparr>index = 0, line = 0\<rparr>"


subsection \<open>The statements inside a statement\<close>

text \<open>
  A statement together with every statement below it: its children, its \<^verbatim>\<open>next\<close>, its
  main slot and its slots.
\<close>

fun subStatements :: "Statement \<Rightarrow> Statement list" where
  "subStatements (EachStatement p iterator variable cs) =
     EachStatement p iterator variable cs # concat (map subStatements cs)"
| "subStatements (IfStatement p e cs nxt) =
     IfStatement p e cs nxt # concat (map subStatements cs)
       @ (case nxt of None \<Rightarrow> [] | Some n \<Rightarrow> subStatements n)"
| "subStatements (ElseIfStatement p e cs nxt) =
     ElseIfStatement p e cs nxt # concat (map subStatements cs)
       @ (case nxt of None \<Rightarrow> [] | Some n \<Rightarrow> subStatements n)"
| "subStatements (ElseStatement p cs) = ElseStatement p cs # concat (map subStatements cs)"
| "subStatements (ComponentStatement p component params mainSlot slots) =
     ComponentStatement p component params mainSlot slots # subStatements mainSlot
       @ concat (map subStatements slots)"
| "subStatements (ComponentMainSlotStatement p cs) =
     ComponentMainSlotStatement p cs # concat (map subStatements cs)"
| "subStatements (ComponentSlotStatement p slotName paramsVariable cs) =
     ComponentSlotStatement p slotName paramsVariable cs # concat (map subStatements cs)"
| "subStatements s = [s]"

definition allStatements :: "Statement list \<Rightarrow> Statement list" where
  "allStatements stmts = concat (map subStatements stmts)"

lemma self_in_subStatements: "s \<in> set (subStatements s)"
  by (cases s) simp_all

text \<open>\<^verbatim>\<open>x instanceof AssignStatement\<close>.\<close>

fun isAssign :: "Statement \<Rightarrow> bool" where
  "isAssign (AssignStatement _ _ _) = True"
| "isAssign _ = False"


subsection \<open>The bound on the recursion is never reached\<close>

text \<open>
  A function that reads a block returns (a statement or an error) as soon as its block
  reader returns at every place after the cursor.
\<close>

lemma makeEachStatement_Some:
  assumes "\<And>names allow q. index p \<le> index q \<Longrightarrow> pus names allow q \<noteq> None"
  shows "makeEachStatement pus code si sl p \<noteq> None"
proof -
  have R: "\<And>names allow q. pus names allow q = None \<Longrightarrow> \<not> index p \<le> index q"
    using assms by blast
  show ?thesis
    by (auto simp: makeEachStatement_def bind_defs Let_def
             split: sum.splits option.splits if_splits
             dest!: skipUntilAndWith_le consume_Inr R)
qed

lemma makeIfStatement_Some:
  assumes "\<And>names allow q. index p \<le> index q \<Longrightarrow> pus names allow q \<noteq> None"
  shows "makeIfStatement pus code si sl p \<noteq> None"
proof -
  have R: "\<And>names allow q. pus names allow q = None \<Longrightarrow> \<not> index p \<le> index q"
    using assms by blast
  show ?thesis
    by (auto simp: makeIfStatement_def bind_defs Let_def
             split: sum.splits option.splits if_splits
             dest!: skipUntilAndWith_le consume_Inr R)
qed

lemma makeElseIfStatement_Some:
  assumes "\<And>names allow q. index p \<le> index q \<Longrightarrow> pus names allow q \<noteq> None"
  shows "makeElseIfStatement pus code si sl p \<noteq> None"
proof -
  have R: "\<And>names allow q. pus names allow q = None \<Longrightarrow> \<not> index p \<le> index q"
    using assms by blast
  show ?thesis
    by (auto simp: makeElseIfStatement_def bind_defs Let_def
             split: sum.splits option.splits if_splits
             dest!: skipUntilAndWith_le consume_Inr R)
qed

lemma makeElseStatement_Some:
  assumes "\<And>names allow q. index p \<le> index q \<Longrightarrow> pus names allow q \<noteq> None"
  shows "makeElseStatement pus code si sl p \<noteq> None"
proof -
  have R: "\<And>names allow q. pus names allow q = None \<Longrightarrow> \<not> index p \<le> index q"
    using assms by blast
  show ?thesis
    by (auto simp: makeElseStatement_def bind_defs Let_def
             split: sum.splits option.splits if_splits
             dest!: parseParams_le R)
qed

lemma makeComponentStatement_Some:
  assumes "\<And>names allow q. index p \<le> index q \<Longrightarrow> pus names allow q \<noteq> None"
  shows "makeComponentStatement pus code si sl p \<noteq> None"
proof -
  have R: "\<And>names allow q. pus names allow q = None \<Longrightarrow> \<not> index p \<le> index q"
    using assms by blast
  show ?thesis
    by (auto simp: makeComponentStatement_def bind_defs Let_def
             split: sum.splits option.splits if_splits
             dest!: parseParams_le R)
qed

lemma makeComponentSlotStatement_Some:
  assumes "\<And>names allow q. index p \<le> index q \<Longrightarrow> pus names allow q \<noteq> None"
  shows "makeComponentSlotStatement pus code si sl p \<noteq> None"
proof -
  have R: "\<And>names allow q. pus names allow q = None \<Longrightarrow> \<not> index p \<le> index q"
    using assms by blast
  show ?thesis
    by (auto simp: makeComponentSlotStatement_def bind_defs Let_def
             split: sum.splits option.splits if_splits
             dest!: skipUntilAndWith_le consume_Inr R)
qed

lemma makeLetStatement_Some: "makeLetStatement code si sl p \<noteq> None"
  by (auto simp: makeLetStatement_def bind_defs Let_def split: sum.splits option.splits if_splits)

lemma makeAssignStatement_Some: "makeAssignStatement code si sl p \<noteq> None"
  by (auto simp: makeAssignStatement_def bind_defs Let_def split: sum.splits option.splits if_splits)

lemma makeParamStatement_Some: "makeParamStatement code si sl p \<noteq> None"
  by (auto simp: makeParamStatement_def bind_defs Let_def split: sum.splits option.splits if_splits)

lemma makeImportStatement_Some: "makeImportStatement code si sl p \<noteq> None"
  by (auto simp: makeImportStatement_def bind_defs Let_def split: sum.splits option.splits if_splits)

lemma makeDefineSlotStatement_Some: "makeDefineSlotStatement code si sl p \<noteq> None"
  by (auto simp: makeDefineSlotStatement_def bind_defs Let_def split: sum.splits option.splits if_splits)

lemmas make_Some =
  makeEachStatement_Some makeIfStatement_Some makeElseIfStatement_Some makeElseStatement_Some
  makeComponentStatement_Some makeComponentSlotStatement_Some makeLetStatement_Some
  makeAssignStatement_Some makeParamStatement_Some makeImportStatement_Some
  makeDefineSlotStatement_Some

lemma makeAtTag_Some:
  assumes "\<And>names allow q. index p < index q \<Longrightarrow> pus names allow q \<noteq> None"
  shows "makeAtTag pus code ai ad ap as p \<noteq> None"
proof -
  let ?p2 = "tagNameLoop code (advance code 1 p)"
  have lt: "index p < index ?p2"
    using tagNameLoop_le [of "advance code 1 p" code] by simp
  have R: "\<And>names allow q. index ?p2 \<le> index q \<Longrightarrow> pus names allow q \<noteq> None"
    using assms lt by (meson less_le_trans)
  show ?thesis
    unfolding makeAtTag_def Let_def
    by (simp add: make_Some R del: not_None_eq)
qed

lemma parseOnceLoop_Some:
  assumes "\<And>names allow q. index p < index q \<Longrightarrow> pus names allow q \<noteq> None"
  shows "parseOnceLoop pus code ai ad ap as accumilator p \<noteq> None"
proof (cases "textScan code accumilator p")
  case (StopTag q)
  with textScan_le [of code accumilator p _ q] have "index p \<le> index q" by simp
  with assms have "\<And>names allow q'. index q < index q' \<Longrightarrow> pus names allow q' \<noteq> None"
    by (meson le_less_trans)
  from makeAtTag_Some [of q pus, OF this] StopTag show ?thesis
    by (simp add: parseOnceLoop_textScan afterScan_def del: not_None_eq)
qed (simp_all add: parseOnceLoop_textScan afterScan_def)

lemma parseUntilLoop_Some:
  "length code - index p < fuel \<Longrightarrow> parseUntilLoop fuel code names allow stmts p \<noteq> None"
proof (induction fuel arbitrary: names allow stmts p)
  case 0
  then show ?case by simp
next
  case (Suc fuel)
  let ?pus = "\<lambda>names allow q. parseUntilLoop fuel code names allow [] q"
  note unf = parseUntilLoop.simps(2) [of fuel code names allow stmts p]
  show ?case
  proof (cases "isAtEnd code p")
    case True
    then show ?thesis by (simp add: unf)
  next
    case False
    then have inb: "index p < length code"
      by (simp add: isAtEnd_def currentChar_def getCharAt_def split: if_splits)
    have nd: "nondecreasing ?pus"
      unfolding nondecreasing_def by (blast dest: parseUntilLoop_less less_imp_le)
    have sub: "\<And>names allow q. index p < index q \<Longrightarrow> ?pus names allow q \<noteq> None"
    proof -
      fix names allow and q :: Parser
      assume "index p < index q"
      with inb Suc.prems have "length code - index q < fuel" by arith
      then show "?pus names allow q \<noteq> None" by (rule Suc.IH)
    qed
    have once: "parseOnce ?pus code False False False allow p \<noteq> None"
      unfolding parseOnce_def by (rule parseOnceLoop_Some) (rule sub)
    show ?thesis
    proof (cases "parseOnce ?pus code False False False allow p")
      case None
      with once show ?thesis by simp
    next
      case (Some r)
      show ?thesis
      proof (cases r)
        case (Inl e)
        with Some False show ?thesis by (simp add: unf)
      next
        case (Inr sp)
        obtain s p1 where sp: "sp = (s, p1)" by (cases sp)
        from parseOnce_less [OF nd False Some [unfolded Inr sp]] have "index p < index p1" .
        with inb Suc.prems have "length code - index p1 < fuel" by arith
        from Suc.IH [OF this] Some Inr sp False show ?thesis by (simp add: unf)
      qed
    qed
  qed
qed

lemma parseLoop_Some:
  "length code \<le> fuel \<Longrightarrow> parseLoop fuel code stmts ai ad ap p \<noteq> None"
proof (induction fuel code stmts ai ad ap p rule: parseLoop.induct)
  case (1 fuel code stmts ai ad ap p)
  note unf = parseLoop.simps [of fuel code stmts ai ad ap p]
  show ?case
  proof (cases "isAtEnd code p")
    case True
    then show ?thesis by (simp add: unf)
  next
    case False
    then have inb: "index p < length code"
      by (simp add: isAtEnd_def currentChar_def getCharAt_def split: if_splits)
    have sub: "\<And>names allow q. index p < index q \<Longrightarrow>
                 parseUntilStatment fuel code names allow q \<noteq> None"
    proof -
      fix names allow and q :: Parser
      assume "index p < index q"
      with inb "1.prems" have "length code - index q < fuel" by arith
      then show "parseUntilStatment fuel code names allow q \<noteq> None"
        unfolding parseUntilStatment_def by (rule parseUntilLoop_Some)
    qed
    have once: "parseOnce (parseUntilStatment fuel code) code ai ad ap False p \<noteq> None"
      unfolding parseOnce_def by (rule parseOnceLoop_Some) (rule sub)
    show ?thesis
    proof (cases "parseOnce (parseUntilStatment fuel code) code ai ad ap False p")
      case None
      with once show ?thesis by simp
    next
      case (Some r)
      show ?thesis
      proof (cases r)
        case (Inl e)
        with Some False show ?thesis by (simp add: unf)
      next
        case (Inr sp)
        obtain s p1 where sp: "sp = (s, p1)" by (cases sp)
        show ?thesis
        proof (cases "hasToBeHandledInParse s")
          case True
          with Some Inr sp False show ?thesis by (simp add: unf Let_def)
        next
          case nh: False
          from "1.IH" [OF False Some Inr sp [symmetric] refl refl refl nh "1.prems"]
          show ?thesis using Some Inr sp False nh by (simp add: unf Let_def)
        qed
      qed
    qed
  qed
qed


subsection \<open>A larger bound changes nothing\<close>

definition refines :: "BlockReader \<Rightarrow> BlockReader \<Rightarrow> bool" where
  "refines pus pus' =
     (\<forall>names allow q r. pus names allow q = Some r \<longrightarrow> pus' names allow q = Some r)"

lemma refinesD:
  "refines pus pus' \<Longrightarrow> pus names allow q = Some r \<Longrightarrow> pus' names allow q = Some r"
  unfolding refines_def by blast

lemma bindO_refines:
  assumes "bindO m f = Some r" and "\<And>x. m = Some x \<Longrightarrow> m' = Some x"
  shows "bindO m' f = Some r"
  using assms by (cases m) (auto simp: bindO_def)

lemma makeEachStatement_refines:
  assumes rf: "refines pus pus'" and eq: "makeEachStatement pus code si sl p = Some r"
  shows "makeEachStatement pus' code si sl p = Some r"
  using eq
  by (auto simp: makeEachStatement_def bindE_def Let_def
           split: sum.splits if_splits
           elim!: bindO_refines dest: refinesD [OF rf])

lemma makeIfStatement_refines:
  assumes rf: "refines pus pus'" and eq: "makeIfStatement pus code si sl p = Some r"
  shows "makeIfStatement pus' code si sl p = Some r"
  using eq
  by (auto simp: makeIfStatement_def bindE_def Let_def
           split: sum.splits if_splits
           elim!: bindO_refines dest: refinesD [OF rf])

lemma makeElseIfStatement_refines:
  assumes rf: "refines pus pus'" and eq: "makeElseIfStatement pus code si sl p = Some r"
  shows "makeElseIfStatement pus' code si sl p = Some r"
  using eq
  by (auto simp: makeElseIfStatement_def bindE_def Let_def
           split: sum.splits if_splits
           elim!: bindO_refines dest: refinesD [OF rf])

lemma makeElseStatement_refines:
  assumes rf: "refines pus pus'" and eq: "makeElseStatement pus code si sl p = Some r"
  shows "makeElseStatement pus' code si sl p = Some r"
  using eq
  by (auto simp: makeElseStatement_def bindE_def Let_def
           split: sum.splits if_splits
           elim!: bindO_refines dest: refinesD [OF rf])

lemma makeComponentStatement_refines:
  assumes rf: "refines pus pus'" and eq: "makeComponentStatement pus code si sl p = Some r"
  shows "makeComponentStatement pus' code si sl p = Some r"
  using eq
  by (auto simp: makeComponentStatement_def bindE_def Let_def
           split: sum.splits if_splits
           elim!: bindO_refines dest: refinesD [OF rf])

lemma makeComponentSlotStatement_refines:
  assumes rf: "refines pus pus'" and eq: "makeComponentSlotStatement pus code si sl p = Some r"
  shows "makeComponentSlotStatement pus' code si sl p = Some r"
  using eq
  by (auto simp: makeComponentSlotStatement_def bindE_def Let_def
           split: sum.splits if_splits
           elim!: bindO_refines dest: refinesD [OF rf])

lemma makeAtTag_refines:
  assumes rf: "refines pus pus'" and eq: "makeAtTag pus code ai ad ap as p = Some r"
  shows "makeAtTag pus' code ai ad ap as p = Some r"
  using eq unfolding makeAtTag_def Let_def
  by (auto split: if_splits
           dest: makeEachStatement_refines [OF rf] makeIfStatement_refines [OF rf]
                 makeElseIfStatement_refines [OF rf] makeElseStatement_refines [OF rf]
                 makeComponentStatement_refines [OF rf]
                 makeComponentSlotStatement_refines [OF rf])

lemma parseOnce_refines:
  assumes rf: "refines pus pus'" and eq: "parseOnce pus code ai ad ap as p = Some r"
  shows "parseOnce pus' code ai ad ap as p = Some r"
  using eq unfolding parseOnce_def parseOnceLoop_textScan afterScan_def
  by (auto split: Stop.splits dest: makeAtTag_refines [OF rf])

lemma parseUntilLoop_Suc:
  "parseUntilLoop fuel code names allow stmts p = Some r \<Longrightarrow>
     parseUntilLoop (Suc fuel) code names allow stmts p = Some r"
proof (induction fuel arbitrary: names allow stmts p r)
  case 0
  then show ?case by (simp add: parseUntilLoop.simps)
next
  case (Suc fuel)
  let ?pus = "\<lambda>names allow q. parseUntilLoop fuel code names allow [] q"
  let ?pus' = "\<lambda>names allow q. parseUntilLoop (Suc fuel) code names allow [] q"
  note unf = parseUntilLoop.simps(2) [of fuel code names allow stmts p]
  note unf' = parseUntilLoop.simps(2) [of "Suc fuel" code names allow stmts p]
  have rf: "refines ?pus ?pus'"
    unfolding refines_def using Suc.IH by blast
  show ?case
  proof (cases "isAtEnd code p")
    case True
    with Suc.prems show ?thesis by (simp add: unf unf')
  next
    case False
    from Suc.prems False obtain x where
      once: "parseOnce ?pus code False False False allow p = Some x"
      by (auto simp: unf split: option.splits)
    from parseOnce_refines [OF rf once]
    have once': "parseOnce ?pus' code False False False allow p = Some x" .
    show ?thesis
    proof (cases x)
      case (Inl e)
      with Suc.prems False once once' show ?thesis by (simp add: unf unf')
    next
      case (Inr sp)
      obtain s p1 where sp: "sp = (s, p1)" by (cases sp)
      show ?thesis
      proof (cases "name s \<in> set names")
        case True
        with Suc.prems False once once' Inr sp show ?thesis by (simp add: unf unf')
      next
        case nin: False
        with Suc.prems False once Inr sp
        have "parseUntilLoop fuel code names allow (stmts @ [s]) p1 = Some r" by (simp add: unf)
        from Suc.IH [OF this] False once' Inr sp nin show ?thesis by (simp add: unf unf')
      qed
    qed
  qed
qed

lemma parseUntilLoop_mono:
  "parseUntilLoop fuel code names allow stmts p = Some r \<Longrightarrow> fuel \<le> fuel' \<Longrightarrow>
     parseUntilLoop fuel' code names allow stmts p = Some r"
proof -
  assume eq: "parseUntilLoop fuel code names allow stmts p = Some r" and le: "fuel \<le> fuel'"
  have "parseUntilLoop (fuel + k) code names allow stmts p = Some r" for k
    by (induction k) (simp_all add: eq parseUntilLoop_Suc)
  from this [of "fuel' - fuel"] le show ?thesis by simp
qed

lemma refines_parseUntilStatment:
  "fuel \<le> fuel' \<Longrightarrow> refines (parseUntilStatment fuel code) (parseUntilStatment fuel' code)"
  unfolding refines_def parseUntilStatment_def by (blast intro: parseUntilLoop_mono)

lemma parseLoop_mono:
  "parseLoop fuel code stmts ai ad ap p = Some r \<Longrightarrow> fuel \<le> fuel' \<Longrightarrow>
     parseLoop fuel' code stmts ai ad ap p = Some r"
proof (induction fuel code stmts ai ad ap p rule: parseLoop.induct)
  case (1 fuel code stmts ai ad ap p)
  note unf = parseLoop.simps [of fuel code stmts ai ad ap p]
  note unf' = parseLoop.simps [of fuel' code stmts ai ad ap p]
  note rf = refines_parseUntilStatment [OF "1.prems"(2), of code]
  show ?case
  proof (cases "isAtEnd code p")
    case True
    with "1.prems" show ?thesis by (simp add: unf unf')
  next
    case False
    from "1.prems"(1) False obtain x where
      once: "parseOnce (parseUntilStatment fuel code) code ai ad ap False p = Some x"
      by (auto simp: unf split: option.splits)
    from parseOnce_refines [OF rf once]
    have once': "parseOnce (parseUntilStatment fuel' code) code ai ad ap False p = Some x" .
    show ?thesis
    proof (cases x)
      case (Inl e)
      with "1.prems" False once once' show ?thesis by (simp add: unf unf')
    next
      case (Inr sp)
      obtain s p1 where sp: "sp = (s, p1)" by (cases sp)
      show ?thesis
      proof (cases "hasToBeHandledInParse s")
        case True
        with "1.prems" False once once' Inr sp show ?thesis by (simp add: unf unf' Let_def)
      next
        case nh: False
        have "parseLoop fuel code (stmts @ [s])
                (if ai \<and> \<not> areImportStatementsAllowedAfter (name s) then False else ai)
                (if ad \<and> \<not> areDefineSlotStatementsAllowedAfter (name s) then False else ad)
                (if ap \<and> \<not> areParamStatementsAllowedAfter (name s) then False else ap) p1
              = Some r"
          using "1.prems"(1) False once Inr sp nh by (simp add: unf Let_def)
        from "1.IH" [OF False once Inr sp [symmetric] refl refl refl nh this "1.prems"(2)]
        show ?thesis using False once' Inr sp nh by (simp add: unf' Let_def)
      qed
    qed
  qed
qed


section \<open>Shape of the parsed statements\<close>

fun isIf :: "Statement \<Rightarrow> bool" where
  "isIf (IfStatement _ _ _ _) = True"
| "isIf _ = False"

fun isElseIf :: "Statement \<Rightarrow> bool" where
  "isElseIf (ElseIfStatement _ _ _ _) = True"
| "isElseIf _ = False"

fun isElse :: "Statement \<Rightarrow> bool" where
  "isElse (ElseStatement _ _) = True"
| "isElse _ = False"

text \<open>
  The \<^verbatim>\<open>#next\<close> field: only \<^verbatim>\<open>IfStatement\<close> and \<^verbatim>\<open>ElseIfStatement\<close> have one. \<open>chain\<close>
  follows it from a statement to the end.
\<close>

fun nextOf :: "Statement \<Rightarrow> Statement option" where
  "nextOf (IfStatement p e cs nxt) = nxt"
| "nextOf (ElseIfStatement p e cs nxt) = nxt"
| "nextOf _ = None"

fun chain :: "Statement \<Rightarrow> Statement list" where
  "chain (IfStatement p e cs (Some n)) = n # chain n"
| "chain (ElseIfStatement p e cs (Some n)) = n # chain n"
| "chain _ = []"

text \<open>Zero or more \<^verbatim>\<open>ElseIf\<close> statements, then nothing or one \<^verbatim>\<open>Else\<close> statement.\<close>

fun chainShape :: "Statement list \<Rightarrow> bool" where
  "chainShape [] = True"
| "chainShape (s # rest) = ((isElseIf s \<and> chainShape rest) \<or> (isElse s \<and> rest = []))"

definition nextIsElseIfOrElse :: "Statement \<Rightarrow> bool" where
  "nextIsElseIfOrElse s = (case nextOf s of None \<Rightarrow> True | Some n \<Rightarrow> isElseIf n \<or> isElse n)"

text \<open>
  What the parser guarantees of every statement it returns, at every depth: a \<^verbatim>\<open>next\<close> is
  an \<^verbatim>\<open>ElseIf\<close> or an \<^verbatim>\<open>Else\<close>, and no \<^verbatim>\<open>DefineSlot\<close> is named \<^verbatim>\<open>main\<close>.
\<close>

fun wellFormed :: "Statement \<Rightarrow> bool" where
  "wellFormed (EachStatement p iterator variable cs) = list_all wellFormed cs"
| "wellFormed (IfStatement p e cs nxt) =
     (list_all wellFormed cs
      \<and> (case nxt of None \<Rightarrow> True | Some n \<Rightarrow> (isElseIf n \<or> isElse n) \<and> wellFormed n))"
| "wellFormed (ElseIfStatement p e cs nxt) =
     (list_all wellFormed cs
      \<and> (case nxt of None \<Rightarrow> True | Some n \<Rightarrow> (isElseIf n \<or> isElse n) \<and> wellFormed n))"
| "wellFormed (ElseStatement p cs) = list_all wellFormed cs"
| "wellFormed (DefineSlotStatement p slotName slotArguments) = (exprValue slotName \<noteq> ''main'')"
| "wellFormed (ComponentStatement p component params mainSlot slots) =
     (wellFormed mainSlot \<and> list_all wellFormed slots)"
| "wellFormed (ComponentMainSlotStatement p cs) = list_all wellFormed cs"
| "wellFormed (ComponentSlotStatement p slotName paramsVariable cs) = list_all wellFormed cs"
| "wellFormed s = True"

lemma wellFormed_subStatements:
  "wellFormed s \<Longrightarrow> t \<in> set (subStatements s) \<Longrightarrow> wellFormed t"
  by (induction s rule: subStatements.induct)
     (auto simp: list_all_iff split: option.splits)

lemma wellFormed_chain:
  "wellFormed s \<Longrightarrow>
     chainShape (chain s) \<and> list_all nextIsElseIfOrElse (s # chain s)
     \<and> list_all (\<lambda>t. isElse t \<longrightarrow> nextOf t = None) (chain s)"
proof (induction s rule: chain.induct)
  case (1 p e cs n)
  then show ?case by (cases n) (auto simp: nextIsElseIfOrElse_def)
next
  case (2 p e cs n)
  then show ?case by (cases n) (auto simp: nextIsElseIfOrElse_def)
qed (auto simp: nextIsElseIfOrElse_def)

lemma isElseIf_name: "isElseIf s \<longleftrightarrow> name s = SN_ElseIfStatement"
  by (cases s) simp_all

lemma isElse_name: "isElse s \<longleftrightarrow> name s = SN_ElseStatement"
  by (cases s) simp_all

lemma isEndStatement_name: "isEndStatement s \<longleftrightarrow> name s = SN_EndStatement"
  by (cases s) simp_all

text \<open>
  A block reader is \<open>blockOk\<close> when what it returns is well formed and its last
  statement has one of the names it was asked for.
\<close>

definition blockOk :: "BlockReader \<Rightarrow> bool" where
  "blockOk pus =
     (\<forall>names allow q cs e q'. pus names allow q = Some (Inr (cs, e, q')) \<longrightarrow>
        list_all wellFormed cs \<and> wellFormed e \<and> name e \<in> set names)"

lemma blockOkD:
  "blockOk pus \<Longrightarrow> pus names allow q = Some (Inr (cs, e, q')) \<Longrightarrow>
     list_all wellFormed cs \<and> wellFormed e \<and> name e \<in> set names"
  unfolding blockOk_def by blast

lemma makeEachStatement_wf:
  assumes ok: "blockOk pus" and eq: "makeEachStatement pus code si sl p = Some (Inr (s, p'))"
  shows "wellFormed s"
  using eq
  by (auto simp: makeEachStatement_def bind_defs Let_def
           split: sum.splits option.splits if_splits dest!: blockOkD [OF ok])

lemma makeIfStatement_wf:
  assumes ok: "blockOk pus" and eq: "makeIfStatement pus code si sl p = Some (Inr (s, p'))"
  shows "wellFormed s"
  using eq
  by (auto simp: makeIfStatement_def bind_defs Let_def
                 isElseIf_name isElse_name isEndStatement_name
           split: sum.splits option.splits if_splits dest!: blockOkD [OF ok])

lemma makeElseIfStatement_wf:
  assumes ok: "blockOk pus" and eq: "makeElseIfStatement pus code si sl p = Some (Inr (s, p'))"
  shows "wellFormed s"
  using eq
  by (auto simp: makeElseIfStatement_def bind_defs Let_def
                 isElseIf_name isElse_name isEndStatement_name
           split: sum.splits option.splits if_splits dest!: blockOkD [OF ok])

lemma makeElseStatement_wf:
  assumes ok: "blockOk pus" and eq: "makeElseStatement pus code si sl p = Some (Inr (s, p'))"
  shows "wellFormed s"
  using eq
  by (auto simp: makeElseStatement_def bind_defs Let_def
           split: sum.splits option.splits if_splits dest!: blockOkD [OF ok])

lemma makeComponentStatement_wf:
  assumes ok: "blockOk pus" and eq: "makeComponentStatement pus code si sl p = Some (Inr (s, p'))"
  shows "wellFormed s"
  using eq
  by (auto simp: makeComponentStatement_def bind_defs Let_def list_all_iff
           split: sum.splits option.splits if_splits dest!: blockOkD [OF ok])

lemma makeComponentSlotStatement_wf:
  assumes ok: "blockOk pus"
    and eq: "makeComponentSlotStatement pus code si sl p = Some (Inr (s, p'))"
  shows "wellFormed s"
  using eq
  by (auto simp: makeComponentSlotStatement_def bind_defs Let_def
           split: sum.splits option.splits if_splits dest!: blockOkD [OF ok])

lemma makeLetStatement_wf:
  "makeLetStatement code si sl p = Some (Inr (s, p')) \<Longrightarrow> wellFormed s"
  by (auto simp: makeLetStatement_def bind_defs Let_def split: sum.splits if_splits)

lemma makeAssignStatement_wf:
  "makeAssignStatement code si sl p = Some (Inr (s, p')) \<Longrightarrow> wellFormed s"
  by (auto simp: makeAssignStatement_def bind_defs Let_def split: sum.splits if_splits)

lemma makeParamStatement_wf:
  "makeParamStatement code si sl p = Some (Inr (s, p')) \<Longrightarrow> wellFormed s"
  by (auto simp: makeParamStatement_def bind_defs Let_def split: sum.splits if_splits)

lemma makeImportStatement_wf:
  "makeImportStatement code si sl p = Some (Inr (s, p')) \<Longrightarrow> wellFormed s"
  by (auto simp: makeImportStatement_def bind_defs Let_def split: sum.splits if_splits)

lemma makeDefineSlotStatement_wf:
  "makeDefineSlotStatement code si sl p = Some (Inr (s, p')) \<Longrightarrow> wellFormed s"
  by (auto simp: makeDefineSlotStatement_def bind_defs Let_def split: sum.splits if_splits)

lemma makeAtTag_wf:
  assumes ok: "blockOk pus" and eq: "makeAtTag pus code ai ad ap as p = Some (Inr (s, p'))"
  shows "wellFormed s"
  using eq unfolding makeAtTag_def Let_def
  by (auto split: if_splits
           dest: makeEachStatement_wf [OF ok] makeIfStatement_wf [OF ok]
                 makeElseIfStatement_wf [OF ok] makeElseStatement_wf [OF ok]
                 makeComponentStatement_wf [OF ok] makeComponentSlotStatement_wf [OF ok]
                 makeLetStatement_wf makeAssignStatement_wf makeParamStatement_wf
                 makeImportStatement_wf makeDefineSlotStatement_wf)

lemma parseOnce_wf:
  assumes ok: "blockOk pus" and eq: "parseOnce pus code ai ad ap as p = Some (Inr (s, p'))"
  shows "wellFormed s"
  using eq unfolding parseOnce_def parseOnceLoop_textScan afterScan_def
  by (auto simp: makeAccumilator_def makeInlineTsCodeStatement_def Let_def
           split: Stop.splits sum.splits if_splits dest: makeAtTag_wf [OF ok])

lemma parseUntilLoop_wf:
  "parseUntilLoop fuel code names allow stmts p = Some (Inr (cs, e, p')) \<Longrightarrow>
     list_all wellFormed stmts \<Longrightarrow>
     list_all wellFormed cs \<and> wellFormed e \<and> name e \<in> set names"
proof (induction fuel arbitrary: names allow stmts p cs e p')
  case 0
  then show ?case by (simp add: parseUntilLoop.simps)
next
  case (Suc fuel)
  let ?pus = "\<lambda>names allow q. parseUntilLoop fuel code names allow [] q"
  note unf = parseUntilLoop.simps(2) [of fuel code names allow stmts p]
  have ok: "blockOk ?pus"
    unfolding blockOk_def
  proof (intro allI impI)
    fix names allow q cs e q'
    assume "parseUntilLoop fuel code names allow [] q = Some (Inr (cs, e, q'))"
    from Suc.IH [OF this] show "list_all wellFormed cs \<and> wellFormed e \<and> name e \<in> set names"
      by simp
  qed
  from Suc.prems(1) have notEnd: "\<not> isAtEnd code p" by (auto simp: unf split: if_splits)
  from Suc.prems(1) notEnd obtain s p1 where
    once: "parseOnce ?pus code False False False allow p = Some (Inr (s, p1))"
    by (auto simp: unf split: option.splits sum.splits)
  from parseOnce_wf [OF ok once] have wfs: "wellFormed s" .
  show ?case
  proof (cases "name s \<in> set names")
    case True
    with Suc.prems notEnd once have "cs = stmts \<and> e = s" by (simp add: unf)
    with Suc.prems(2) wfs True show ?thesis by simp
  next
    case False
    with Suc.prems(1) notEnd once
    have "parseUntilLoop fuel code names allow (stmts @ [s]) p1 = Some (Inr (cs, e, p'))"
      by (simp add: unf)
    from Suc.IH [OF this] Suc.prems(2) wfs show ?thesis by simp
  qed
qed

lemma blockOk_parseUntilStatment: "blockOk (parseUntilStatment fuel code)"
  unfolding blockOk_def parseUntilStatment_def
proof (intro allI impI)
  fix names allow q cs e q'
  assume "parseUntilLoop fuel code names allow [] q = Some (Inr (cs, e, q'))"
  from parseUntilLoop_wf [OF this]
  show "list_all wellFormed cs \<and> wellFormed e \<and> name e \<in> set names" by simp
qed

lemma parseLoop_wf:
  "parseLoop fuel code stmts ai ad ap p = Some (Inr result) \<Longrightarrow> list_all wellFormed stmts \<Longrightarrow>
     list_all wellFormed result"
proof (induction fuel code stmts ai ad ap p rule: parseLoop.induct)
  case (1 fuel code stmts ai ad ap p)
  note unf = parseLoop.simps [of fuel code stmts ai ad ap p]
  show ?case
  proof (cases "isAtEnd code p")
    case True
    with "1.prems" show ?thesis by (simp add: unf)
  next
    case False
    from "1.prems"(1) False obtain s p1 where
      once: "parseOnce (parseUntilStatment fuel code) code ai ad ap False p = Some (Inr (s, p1))"
      by (auto simp: unf split: option.splits sum.splits)
    from parseOnce_wf [OF blockOk_parseUntilStatment once] have wfs: "wellFormed s" .
    from "1.prems"(1) False once have nh: "\<not> hasToBeHandledInParse s"
      by (auto simp: unf Let_def split: if_splits)
    have "parseLoop fuel code (stmts @ [s])
            (if ai \<and> \<not> areImportStatementsAllowedAfter (name s) then False else ai)
            (if ad \<and> \<not> areDefineSlotStatementsAllowedAfter (name s) then False else ad)
            (if ap \<and> \<not> areParamStatementsAllowedAfter (name s) then False else ap) p1
          = Some (Inr result)"
      using "1.prems"(1) False once nh by (simp add: unf Let_def)
    from "1.IH" [OF False once refl refl refl refl refl nh this] "1.prems"(2) wfs
    show ?thesis by simp
  qed
qed

lemma parse_wf: "parse code = Some (Inr stmts) \<Longrightarrow> s \<in> set (allStatements stmts) \<Longrightarrow> wellFormed s"
proof -
  assume p: "parse code = Some (Inr stmts)" and m: "s \<in> set (allStatements stmts)"
  from parseLoop_wf [OF p [unfolded parse_def]] have "list_all wellFormed stmts" by simp
  with m show ?thesis
    by (auto simp: allStatements_def list_all_iff dest: wellFormed_subStatements)
qed


lemma chain_size: "t \<in> set (chain s) \<Longrightarrow> size t < size s"
  by (induction s rule: chain.induct) auto

lemma chain_distinct: "distinct (s # chain s)"
proof (induction s rule: chain.induct)
  case (1 p e cs n)
  have sz: "size n < size (IfStatement p e cs (Some n))" by simp
  have "IfStatement p e cs (Some n) \<notin> set (n # chain n)"
  proof
    assume "IfStatement p e cs (Some n) \<in> set (n # chain n)"
    then consider "IfStatement p e cs (Some n) = n"
      | "IfStatement p e cs (Some n) \<in> set (chain n)" by auto
    then show False
    proof cases
      case 1
      with sz show False by simp
    next
      case 2
      from chain_size [OF 2] sz show False by simp
    qed
  qed
  with 1 show ?case by simp
next
  case (2 p e cs n)
  have sz: "size n < size (ElseIfStatement p e cs (Some n))" by simp
  have "ElseIfStatement p e cs (Some n) \<notin> set (n # chain n)"
  proof
    assume "ElseIfStatement p e cs (Some n) \<in> set (n # chain n)"
    then consider "ElseIfStatement p e cs (Some n) = n"
      | "ElseIfStatement p e cs (Some n) \<in> set (chain n)" by auto
    then show False
    proof cases
      case 1
      with sz show False by simp
    next
      case 2
      from chain_size [OF 2] sz show False by simp
    qed
  qed
  with 2 show ?case by simp
qed simp_all


section \<open>What the map of a fragment holds\<close>

text \<open>The fragments below a fragment that are entered into the map.\<close>

fun mappedBelow :: "TsCode \<Rightarrow> TsCode list" where
  "mappedBelow (TsCode so po cs lit sbm) =
     concat (map (\<lambda>c. (if tc_shouldBeMapped c then [c] else []) @ mappedBelow c) cs)"

definition flatText :: "TsCode \<Rightarrow> string" where
  "flatText t = snd (toMappedString t)"








definition isLeafOf :: "TsCodeExpression set \<Rightarrow> TsCode \<Rightarrow> bool" where
  "isLeafOf E d =
     (\<exists>e \<in> E. tc_sourceOffset d = start (position e) \<and> flatText d = exprValue e)"

definition good :: "TsCodeExpression set \<Rightarrow> TsCode \<Rightarrow> bool" where
  "good E c = ((tc_shouldBeMapped c \<longrightarrow> isLeafOf E c) \<and> (\<forall>d \<in> set (mappedBelow c). isLeafOf E d))"

lemma flatText_setParentOffset [simp]: "flatText (setParentOffset v t) = flatText t"
  by (cases t) (simp add: flatText_def setParentOffset_def)

lemma mappedBelow_setParentOffset [simp]: "mappedBelow (setParentOffset v t) = mappedBelow t"
  by (cases t) (simp add: setParentOffset_def)

lemma sel_setParentOffset [simp]:
  "tc_sourceOffset (setParentOffset v t) = tc_sourceOffset t"
  "tc_shouldBeMapped (setParentOffset v t) = tc_shouldBeMapped t"
  by (simp_all add: setParentOffset_def)

lemma good_setParentOffset [simp]: "good E (setParentOffset v t) = good E t"
  by (simp add: good_def isLeafOf_def)





lemma shouldBeMapped_newTsCode [simp]: "tc_shouldBeMapped (newTsCode so sbm b) = sbm"
  by (simp add: newTsCode_def)








section \<open>The ordering gates\<close>

text \<open>The tag name that \<^verbatim>\<open>#makeAtTag\<close> reads at a cursor that stands on \<^verbatim>\<open>@\<close>.\<close>

definition tagNameAt :: "string \<Rightarrow> Parser \<Rightarrow> string" where
  "tagNameAt code p =
     slice code (index (advance code 1 p)) (index (tagNameLoop code (advance code 1 p)))"

lemma makeEachStatement_name:
  "makeEachStatement pus code si sl p = Some (Inr (s, p')) \<Longrightarrow> name s = SN_EachStatement"
  by (auto simp: makeEachStatement_def bind_defs Let_def
           split: sum.splits option.splits if_splits)

lemma makeIfStatement_name:
  "makeIfStatement pus code si sl p = Some (Inr (s, p')) \<Longrightarrow> name s = SN_IfStatement"
  by (auto simp: makeIfStatement_def bind_defs Let_def
           split: sum.splits option.splits if_splits)

lemma makeElseIfStatement_name:
  "makeElseIfStatement pus code si sl p = Some (Inr (s, p')) \<Longrightarrow> name s = SN_ElseIfStatement"
  by (auto simp: makeElseIfStatement_def bind_defs Let_def
           split: sum.splits option.splits if_splits)

lemma makeElseStatement_name:
  "makeElseStatement pus code si sl p = Some (Inr (s, p')) \<Longrightarrow> name s = SN_ElseStatement"
  by (auto simp: makeElseStatement_def bind_defs Let_def
           split: sum.splits option.splits if_splits)

lemma makeLetStatement_name:
  "makeLetStatement code si sl p = Some (Inr (s, p')) \<Longrightarrow> name s = SN_LetStatement"
  by (auto simp: makeLetStatement_def bind_defs Let_def
           split: sum.splits option.splits if_splits)

lemma makeAssignStatement_name:
  "makeAssignStatement code si sl p = Some (Inr (s, p')) \<Longrightarrow> name s = SN_LetStatement"
  by (auto simp: makeAssignStatement_def bind_defs Let_def
           split: sum.splits option.splits if_splits)

lemma makeParamStatement_name:
  "makeParamStatement code si sl p = Some (Inr (s, p')) \<Longrightarrow> name s = SN_ParamStatement"
  by (auto simp: makeParamStatement_def bind_defs Let_def
           split: sum.splits option.splits if_splits)

lemma makeImportStatement_name:
  "makeImportStatement code si sl p = Some (Inr (s, p')) \<Longrightarrow> name s = SN_ImportStatement"
  by (auto simp: makeImportStatement_def bind_defs Let_def
           split: sum.splits option.splits if_splits)

lemma makeDefineSlotStatement_name:
  "makeDefineSlotStatement code si sl p = Some (Inr (s, p')) \<Longrightarrow>
     name s = SN_DefineSlotStatement"
  by (auto simp: makeDefineSlotStatement_def bind_defs Let_def
           split: sum.splits option.splits if_splits)

lemma makeComponentStatement_name:
  "makeComponentStatement pus code si sl p = Some (Inr (s, p')) \<Longrightarrow>
     name s = SN_ComponentStatement"
  by (auto simp: makeComponentStatement_def bind_defs Let_def
           split: sum.splits option.splits if_splits)

lemma makeComponentSlotStatement_name:
  "makeComponentSlotStatement pus code si sl p = Some (Inr (s, p')) \<Longrightarrow>
     name s = SN_ComponentSlotStatement"
  by (auto simp: makeComponentSlotStatement_def bind_defs Let_def
           split: sum.splits option.splits if_splits)

lemma makeInlineTsCodeStatement_name:
  "makeInlineTsCodeStatement code p = Inr (s, p') \<Longrightarrow>
     name s = SN_InlineTsCodeStatement \<or> name s = SN_InlineSafeTsCodeStatement"
  by (auto simp: makeInlineTsCodeStatement_def Let_def split: sum.splits if_splits)

text \<open>
  A tag that returns a statement named Import, DefineSlot or Param was the tag of that
  name, and its gate was open.
\<close>

lemma makeAtTag_Inr_gate:
  assumes "makeAtTag pus code ai ad ap as p = Some (Inr (s, p'))"
  shows "(name s = SN_ImportStatement \<longrightarrow> tagNameAt code p = ''import'' \<and> ai)
         \<and> (name s = SN_DefineSlotStatement \<longrightarrow> tagNameAt code p = ''defslot'' \<and> ad)
         \<and> (name s = SN_ParamStatement \<longrightarrow> tagNameAt code p = ''param'' \<and> ap)"
proof -
  let ?p2 = "tagNameLoop code (advance code 1 p)"
  let ?tag = "tagNameAt code p"
  note d = makeAtTag_def Let_def tagNameAt_def
  consider (each) "?tag = ''each''" | (iff) "?tag = ''if''" | (elseif) "?tag = ''elseif''"
    | (els) "?tag = ''else''" | (lett) "?tag = ''let''" | (assign) "?tag = ''assign''"
    | (component) "?tag = ''component''" | (import) "?tag = ''import''"
    | (param) "?tag = ''param''" | (defslot) "?tag = ''defslot''" | (slot) "?tag = ''slot''"
    | (endd) "?tag = ''end''"
    | (other) "?tag \<notin> {''each'', ''if'', ''elseif'', ''else'', ''let'', ''assign'', ''component'',
                        ''import'', ''param'', ''defslot'', ''slot'', ''end''}"
    by blast
  then show ?thesis
  proof cases
    case each
    with assms have "makeEachStatement pus code (index p) (line p) ?p2 = Some (Inr (s, p'))"
      by (simp add: d)
    from makeEachStatement_name [OF this] show ?thesis by simp
  next
    case iff
    with assms have "makeIfStatement pus code (index p) (line p) ?p2 = Some (Inr (s, p'))"
      by (simp add: d)
    from makeIfStatement_name [OF this] show ?thesis by simp
  next
    case elseif
    with assms have "makeElseIfStatement pus code (index p) (line p) ?p2 = Some (Inr (s, p'))"
      by (simp add: d)
    from makeElseIfStatement_name [OF this] show ?thesis by simp
  next
    case els
    with assms have "makeElseStatement pus code (index p) (line p) ?p2 = Some (Inr (s, p'))"
      by (simp add: d)
    from makeElseStatement_name [OF this] show ?thesis by simp
  next
    case lett
    with assms have "makeLetStatement code (index p) (line p) ?p2 = Some (Inr (s, p'))"
      by (simp add: d)
    from makeLetStatement_name [OF this] show ?thesis by simp
  next
    case assign
    with assms have "makeAssignStatement code (index p) (line p) ?p2 = Some (Inr (s, p'))"
      by (simp add: d)
    from makeAssignStatement_name [OF this] show ?thesis by simp
  next
    case component
    with assms
    have "makeComponentStatement pus code (index p) (line p) ?p2 = Some (Inr (s, p'))"
      by (simp add: d)
    from makeComponentStatement_name [OF this] show ?thesis by simp
  next
    case import
    with assms have "ai \<and> makeImportStatement code (index p) (line p) ?p2 = Some (Inr (s, p'))"
      by (simp add: d split: if_splits)
    with makeImportStatement_name [of code "index p" "line p" ?p2 s p'] import
    show ?thesis by simp
  next
    case param
    with assms have "ap \<and> makeParamStatement code (index p) (line p) ?p2 = Some (Inr (s, p'))"
      by (simp add: d split: if_splits)
    with makeParamStatement_name [of code "index p" "line p" ?p2 s p'] param
    show ?thesis by simp
  next
    case defslot
    with assms
    have "ad \<and> makeDefineSlotStatement code (index p) (line p) ?p2 = Some (Inr (s, p'))"
      by (simp add: d split: if_splits)
    with makeDefineSlotStatement_name [of code "index p" "line p" ?p2 s p'] defslot
    show ?thesis by simp
  next
    case slot
    with assms
    have "makeComponentSlotStatement pus code (index p) (line p) ?p2 = Some (Inr (s, p'))"
      by (simp add: d split: if_splits)
    from makeComponentSlotStatement_name [OF this] show ?thesis by simp
  next
    case endd
    with assms have "s = EndStatement (newPositionRange (index p) (line p) (Some (index ?p2)))"
      by (auto simp: d)
    then show ?thesis by simp
  next
    case other
    with assms show ?thesis by (simp add: d)
  qed
qed

lemma makeAtTag_closed:
  "tagNameAt code p = ''import'' \<Longrightarrow>
     makeAtTag pus code False ad ap as p
       = Some (Inl (InvalidImportSlotsParamsOrder
                      (newPositionRange (index p) (line p)
                         (Some (index (tagNameLoop code (advance code 1 p)))))))"
  "tagNameAt code p = ''defslot'' \<Longrightarrow>
     makeAtTag pus code ai False ap as p
       = Some (Inl (InvalidImportSlotsParamsOrder
                      (newPositionRange (index p) (line p)
                         (Some (index (tagNameLoop code (advance code 1 p)))))))"
  "tagNameAt code p = ''param'' \<Longrightarrow>
     makeAtTag pus code ai ad False as p
       = Some (Inl (InvalidImportSlotsParamsOrder
                      (newPositionRange (index p) (line p)
                         (Some (index (tagNameLoop code (advance code 1 p)))))))"
  by (simp_all add: makeAtTag_def Let_def tagNameAt_def)

lemma parseOnce_Inr_tag:
  assumes "parseOnce pus code ai ad ap as p = Some (Inr (s, p'))"
    and "name s \<in> {SN_ImportStatement, SN_DefineSlotStatement, SN_ParamStatement}"
  shows "\<exists>q. textScan code \<lparr>acc_value = [], startIndex = index p, startLine = line p\<rparr> p
               = StopTag q
             \<and> makeAtTag pus code ai ad ap as q = Some (Inr (s, p'))"
proof (cases "textScan code \<lparr>acc_value = [], startIndex = index p, startLine = line p\<rparr> p")
  case (StopText a q)
  with assms(1) have "s = makeAccumilator a q"
    by (auto simp: parseOnce_def parseOnceLoop_textScan afterScan_def)
  with assms(2) show ?thesis by (simp add: makeAccumilator_def)
next
  case (StopInline q)
  with assms(1) have "makeInlineTsCodeStatement code q = Inr (s, p')"
    by (simp add: parseOnce_def parseOnceLoop_textScan afterScan_def)
  from makeInlineTsCodeStatement_name [OF this] assms(2) show ?thesis by auto
next
  case (StopTag q)
  with assms(1) show ?thesis
    by (simp add: parseOnce_def parseOnceLoop_textScan afterScan_def)
next
  case (StopError e)
  with assms(1) show ?thesis
    by (simp add: parseOnce_def parseOnceLoop_textScan afterScan_def)
qed

lemma parseOnce_Inr_gate:
  assumes "parseOnce pus code ai ad ap as p = Some (Inr (s, p'))"
  shows "(name s = SN_ImportStatement \<longrightarrow> ai) \<and> (name s = SN_DefineSlotStatement \<longrightarrow> ad)
         \<and> (name s = SN_ParamStatement \<longrightarrow> ap)"
proof (cases "name s \<in> {SN_ImportStatement, SN_DefineSlotStatement, SN_ParamStatement}")
  case True
  from parseOnce_Inr_tag [OF assms True] obtain q where
    "makeAtTag pus code ai ad ap as q = Some (Inr (s, p'))" by blast
  from makeAtTag_Inr_gate [OF this] show ?thesis by blast
next
  case False
  then show ?thesis by simp
qed

text \<open>
  Where a round of the loop returns an Import statement, the same round with the import
  gate closed raises the ordering error, whatever the other gates are; likewise for
  DefineSlot and Param.
\<close>

lemma parseOnce_closed:
  assumes "parseOnce pus code ai ad ap as p = Some (Inr (s, p'))"
  shows "name s = SN_ImportStatement \<Longrightarrow>
           \<exists>pos. parseOnce pus code False ad' ap' as p
                    = Some (Inl (InvalidImportSlotsParamsOrder pos))"
    and "name s = SN_DefineSlotStatement \<Longrightarrow>
           \<exists>pos. parseOnce pus code ai' False ap' as p
                    = Some (Inl (InvalidImportSlotsParamsOrder pos))"
    and "name s = SN_ParamStatement \<Longrightarrow>
           \<exists>pos. parseOnce pus code ai' ad' False as p
                    = Some (Inl (InvalidImportSlotsParamsOrder pos))"
proof -
  have r: "\<exists>q. (\<forall>x y z. parseOnce pus code x y z as p = makeAtTag pus code x y z as q)
             \<and> (name s = SN_ImportStatement \<longrightarrow> tagNameAt code q = ''import'')
             \<and> (name s = SN_DefineSlotStatement \<longrightarrow> tagNameAt code q = ''defslot'')
             \<and> (name s = SN_ParamStatement \<longrightarrow> tagNameAt code q = ''param'')"
    if n: "name s \<in> {SN_ImportStatement, SN_DefineSlotStatement, SN_ParamStatement}"
  proof -
    from parseOnce_Inr_tag [OF assms n] obtain q where
      q: "textScan code \<lparr>acc_value = [], startIndex = index p, startLine = line p\<rparr> p
            = StopTag q"
      and m: "makeAtTag pus code ai ad ap as q = Some (Inr (s, p'))" by blast
    have "parseOnce pus code x y z as p = makeAtTag pus code x y z as q" for x y z
      by (simp add: parseOnce_def parseOnceLoop_textScan afterScan_def q)
    with makeAtTag_Inr_gate [OF m] show ?thesis by blast
  qed
  show "name s = SN_ImportStatement \<Longrightarrow>
           \<exists>pos. parseOnce pus code False ad' ap' as p
                    = Some (Inl (InvalidImportSlotsParamsOrder pos))"
    using r by (auto simp: makeAtTag_closed)
  show "name s = SN_DefineSlotStatement \<Longrightarrow>
           \<exists>pos. parseOnce pus code ai' False ap' as p
                    = Some (Inl (InvalidImportSlotsParamsOrder pos))"
    using r by (auto simp: makeAtTag_closed)
  show "name s = SN_ParamStatement \<Longrightarrow>
           \<exists>pos. parseOnce pus code ai' ad' False as p
                    = Some (Inl (InvalidImportSlotsParamsOrder pos))"
    using r by (auto simp: makeAtTag_closed)
qed

subsection \<open>The loop of \<^verbatim>\<open>parse\<close>, round by round\<close>

text \<open>
  The variables of the loop of \<^verbatim>\<open>parse\<close>: the statements collected so far, the three gates
  and the cursor.
\<close>

record LoopState =
  statements :: "Statement list"
  allowImportStatements :: bool
  allowDefineSlotStatement :: bool
  allowParamStatement :: bool
  cursor :: Parser

definition initialState :: LoopState where
  "initialState =
     \<lparr>statements = [], allowImportStatements = True, allowDefineSlotStatement = True,
      allowParamStatement = True, cursor = \<lparr>index = 0, line = 0\<rparr>\<rparr>"

text \<open>One round of the loop body of \<^verbatim>\<open>parse\<close>, from a cursor that is not at the end.\<close>

definition parseIteration :: "nat \<Rightarrow> string \<Rightarrow> LoopState \<Rightarrow> LoopState outcome" where
  "parseIteration fuel code st =
     (case parseOnce (parseUntilStatment fuel code) code (allowImportStatements st)
             (allowDefineSlotStatement st) (allowParamStatement st) False (cursor st) of
        None \<Rightarrow> None
      | Some (Inl e) \<Rightarrow> Some (Inl e)
      | Some (Inr (statement, p')) \<Rightarrow>
          if hasToBeHandledInParse statement
          then Some (Inl (DisalowedTagContexError (stmtPosition statement) (name statement)))
          else Some (Inr
                 \<lparr>statements = statements st @ [statement],
                  allowImportStatements =
                    (if allowImportStatements st
                        \<and> \<not> areImportStatementsAllowedAfter (name statement)
                     then False else allowImportStatements st),
                  allowDefineSlotStatement =
                    (if allowDefineSlotStatement st
                        \<and> \<not> areDefineSlotStatementsAllowedAfter (name statement)
                     then False else allowDefineSlotStatement st),
                  allowParamStatement =
                    (if allowParamStatement st
                        \<and> \<not> areParamStatementsAllowedAfter (name statement)
                     then False else allowParamStatement st),
                  cursor = p'\<rparr>))"

text \<open>The loop of \<^verbatim>\<open>parse\<close> run from a given state of its variables.\<close>

definition runLoop :: "nat \<Rightarrow> string \<Rightarrow> LoopState \<Rightarrow> (Statement list) outcome" where
  "runLoop fuel code st =
     parseLoop fuel code (statements st) (allowImportStatements st)
       (allowDefineSlotStatement st) (allowParamStatement st) (cursor st)"

text \<open>
  The state of the loop after \<open>n\<close> more rounds; \<open>None\<close> when the loop has ended before, by
  reaching the end of the template or by an error.
\<close>

fun parseRounds :: "nat \<Rightarrow> nat \<Rightarrow> string \<Rightarrow> LoopState \<Rightarrow> LoopState option" where
  "parseRounds 0 fuel code st = Some st"
| "parseRounds (Suc n) fuel code st =
     (if isAtEnd code (cursor st) then None
      else (case parseIteration fuel code st of
              Some (Inr st') \<Rightarrow> parseRounds n fuel code st'
            | _ \<Rightarrow> None))"

lemma parse_runLoop: "parse code = runLoop (length code) code initialState"
  by (simp add: parse_def runLoop_def initialState_def)

lemma runLoop_unfold:
  "runLoop fuel code st =
     (if isAtEnd code (cursor st) then Some (Inr (statements st))
      else (case parseIteration fuel code st of
              None \<Rightarrow> None
            | Some (Inl e) \<Rightarrow> Some (Inl e)
            | Some (Inr st') \<Rightarrow> runLoop fuel code st'))"
  by (simp add: runLoop_def parseIteration_def Let_def
        parseLoop.simps [of fuel code "statements st" "allowImportStatements st"
                           "allowDefineSlotStatement st" "allowParamStatement st" "cursor st"]
      split: option.splits sum.splits prod.splits)

lemma parseRounds_runLoop:
  "parseRounds n fuel code st = Some st' \<Longrightarrow> runLoop fuel code st' = runLoop fuel code st"
proof (induction n arbitrary: st)
  case 0
  then show ?case by simp
next
  case (Suc n)
  from Suc.prems obtain st1 where notEnd: "\<not> isAtEnd code (cursor st)"
    and it: "parseIteration fuel code st = Some (Inr st1)"
    and rest: "parseRounds n fuel code st1 = Some st'"
    by (auto split: if_splits option.splits sum.splits)
  from Suc.IH [OF rest] have "runLoop fuel code st' = runLoop fuel code st1" .
  also have "\<dots> = runLoop fuel code st"
    using notEnd it by (simp add: runLoop_unfold [of fuel code st])
  finally show ?case .
qed

text \<open>
  Each gate is open exactly when every statement collected so far is in the allowed set of
  the gate.
\<close>

definition gatesMatch :: "LoopState \<Rightarrow> bool" where
  "gatesMatch st =
     ((allowImportStatements st
         \<longleftrightarrow> list_all (\<lambda>t. name t \<in> {SN_TextStatement, SN_ImportStatement}) (statements st))
      \<and> (allowDefineSlotStatement st
         \<longleftrightarrow> list_all (\<lambda>t. name t \<in> {SN_TextStatement, SN_ImportStatement,
                                      SN_DefineSlotStatement}) (statements st))
      \<and> (allowParamStatement st
         \<longleftrightarrow> list_all (\<lambda>t. name t \<in> {SN_TextStatement, SN_ImportStatement,
                                      SN_DefineSlotStatement, SN_ParamStatement})
               (statements st)))"

lemma gatesMatch_initialState: "gatesMatch initialState"
  by (simp add: gatesMatch_def initialState_def)

lemma parseIteration_Inr:
  assumes "parseIteration fuel code st = Some (Inr st')"
  shows "\<exists>s p'. parseOnce (parseUntilStatment fuel code) code (allowImportStatements st)
                   (allowDefineSlotStatement st) (allowParamStatement st) False (cursor st)
                  = Some (Inr (s, p'))
               \<and> statements st' = statements st @ [s]
               \<and> allowImportStatements st'
                   = (allowImportStatements st \<and> areImportStatementsAllowedAfter (name s))
               \<and> allowDefineSlotStatement st'
                   = (allowDefineSlotStatement st \<and> areDefineSlotStatementsAllowedAfter (name s))
               \<and> allowParamStatement st'
                   = (allowParamStatement st \<and> areParamStatementsAllowedAfter (name s))"
  using assms
  by (auto simp: parseIteration_def split: option.splits sum.splits prod.splits if_splits)

lemma parseIteration_gatesMatch:
  assumes "gatesMatch st" and "parseIteration fuel code st = Some (Inr st')"
  shows "gatesMatch st'"
proof -
  from parseIteration_Inr [OF assms(2)] obtain s where
    "statements st' = statements st @ [s]"
    "allowImportStatements st'
       = (allowImportStatements st \<and> areImportStatementsAllowedAfter (name s))"
    "allowDefineSlotStatement st'
       = (allowDefineSlotStatement st \<and> areDefineSlotStatementsAllowedAfter (name s))"
    "allowParamStatement st'
       = (allowParamStatement st \<and> areParamStatementsAllowedAfter (name s))"
    by blast
  with assms(1) show ?thesis
    by (simp add: gatesMatch_def areImportStatementsAllowedAfter_def
          areDefineSlotStatementsAllowedAfter_def areParamStatementsAllowedAfter_def)
       blast
qed

lemma parseRounds_gatesMatch:
  "gatesMatch st \<Longrightarrow> parseRounds n fuel code st = Some st' \<Longrightarrow> gatesMatch st'"
proof (induction n arbitrary: st)
  case 0
  then show ?case by simp
next
  case (Suc n)
  from Suc.prems(2) obtain st1 where it: "parseIteration fuel code st = Some (Inr st1)"
    and rest: "parseRounds n fuel code st1 = Some st'"
    by (auto split: if_splits option.splits sum.splits)
  from Suc.IH [OF parseIteration_gatesMatch [OF Suc.prems(1) it] rest] show ?case .
qed

lemma parseRounds_closed:
  "parseRounds n fuel code st = Some st' \<Longrightarrow>
     (\<not> allowImportStatements st \<longrightarrow> \<not> allowImportStatements st')
     \<and> (\<not> allowDefineSlotStatement st \<longrightarrow> \<not> allowDefineSlotStatement st')
     \<and> (\<not> allowParamStatement st \<longrightarrow> \<not> allowParamStatement st')"
proof (induction n arbitrary: st)
  case 0
  then show ?case by simp
next
  case (Suc n)
  from Suc.prems obtain st1 where it: "parseIteration fuel code st = Some (Inr st1)"
    and rest: "parseRounds n fuel code st1 = Some st'"
    by (auto split: if_splits option.splits sum.splits)
  from parseIteration_Inr [OF it] Suc.IH [OF rest] show ?case by blast
qed

text \<open>
  A round that would return an Import, DefineSlot or Param statement if the gates were
  open ends the parse with the ordering error when the gate of that statement is closed.
\<close>

lemma runLoop_closed:
  assumes once: "parseOnce (parseUntilStatment fuel code) code True True True False (cursor st)
                   = Some (Inr (s, p'))"
    and closed: "name s = SN_ImportStatement \<and> \<not> allowImportStatements st
                 \<or> name s = SN_DefineSlotStatement \<and> \<not> allowDefineSlotStatement st
                 \<or> name s = SN_ParamStatement \<and> \<not> allowParamStatement st"
  shows "\<exists>pos. runLoop fuel code st = Some (Inl (InvalidImportSlotsParamsOrder pos))"
proof -
  from closed have n: "name s \<noteq> SN_TextStatement" by auto
  have notEnd: "\<not> isAtEnd code (cursor st)"
  proof
    assume "isAtEnd code (cursor st)"
    then have "parseOnce (parseUntilStatment fuel code) code True True True False (cursor st)
                 = Some (Inr (makeAccumilator
                      \<lparr>acc_value = [], startIndex = index (cursor st),
                       startLine = line (cursor st)\<rparr> (cursor st), cursor st))"
      by (simp add: parseOnce_def isAtEnd_def
            parseOnceLoop.simps [of _ code True True True False _ "cursor st"])
    with once n show False by (auto simp: makeAccumilator_def)
  qed
  from closed parseOnce_closed [OF once]
  obtain pos where
    "parseOnce (parseUntilStatment fuel code) code (allowImportStatements st)
       (allowDefineSlotStatement st) (allowParamStatement st) False (cursor st)
      = Some (Inl (InvalidImportSlotsParamsOrder pos))"
    by metis
  then have "parseIteration fuel code st = Some (Inl (InvalidImportSlotsParamsOrder pos))"
    by (simp add: parseIteration_def)
  with notEnd show ?thesis by (simp add: runLoop_unfold [of fuel code st])
qed

section \<open>Comments\<close>

lemma advance_add: "advance code (m + n) p = advance code n (advance code m p)"
  by (induction m arbitrary: p) (simp_all add: advance.simps Let_def)

lemma getCharAt_take_drop:
  assumes "take n (drop i code) = xs" and "j < length xs"
  shows "getCharAt code (i + j) = Some (xs ! j)"
proof -
  from assms have "j < n" and "j < length code - i" by auto
  moreover from assms have "xs ! j = take n (drop i code) ! j" by simp
  ultimately show ?thesis by (simp add: getCharAt_def)
qed

lemma take_drop_append:
  assumes "take n (drop i code) = xs @ ys"
  shows "take (n - length xs) (drop (i + length xs) code) = ys"
proof -
  have "take (n - length xs) (drop (i + length xs) code)
          = drop (length xs) (take n (drop i code))"
    by (simp add: drop_take add.commute)
  with assms show ?thesis by simp
qed

text \<open>
  The bracket counter of the loop of \<^verbatim>\<open>#skipUntilAndWith\<close> after the characters of a
  text, from a given value: an opening bracket adds one, a closing bracket takes one off
  unless the counter is 0, any other character leaves it.
\<close>

fun depthAfter :: "nat \<Rightarrow> string \<Rightarrow> nat" where
  "depthAfter depth [] = depth"
| "depthAfter depth (c # cs) =
     depthAfter (if c \<in> PAREN_START then depth + 1
                 else if depth > 0 \<and> c \<in> PAREN_END then depth - 1
                 else depth) cs"

text \<open>
  The scan for \<^verbatim>\<open>--}}\<close> stops at the first \<^verbatim>\<open>--}}\<close> when the counter is 0 there.
\<close>

lemma skipUntilLoop_comment:
  assumes "take (length body + 4) (drop (index q) code) = body @ ''--}}''"
    and "\<forall>k<length body. take 4 (drop k (body @ ''--}}'')) \<noteq> ''--}}''"
    and "depthAfter depth body = 0"
  shows "\<exists>r. skipUntilLoop code [''--}}''] True si sl depth q
               = Inr (r, advance code (length body + 4) q)"
  using assms
proof (induction body arbitrary: q depth)
  case Nil
  then have d: "depth = 0" by simp
  note unf = skipUntilLoop.simps [of code "[''--}}'']" True si sl 0 q]
  from Nil.prems(1) have t: "take 4 (drop (index q) code) = ''--}}''" by simp
  from getCharAt_take_drop [OF t, of 0] have c: "currentChar code q = Some (CHR ''-'')"
    by (simp add: currentChar_def)
  from t have f: "areNextChars code q ''--}}''"
    by (simp add: areNextChars_def areNextCharsFrom_take eval_nat_numeral)
  show ?case unfolding d
    by (simp add: unf c f PAREN_START_def Let_def eval_nat_numeral)
next
  case (Cons c cs)
  note unf = skipUntilLoop.simps [of code "[''--}}'']" True si sl depth q]
  let ?q = "advance code 1 q"
  let ?d = "if c \<in> PAREN_START then depth + 1
            else if depth > 0 \<and> c \<in> PAREN_END then depth - 1 else depth"
  from Cons.prems(1) have t: "take (length (c # cs) + 4) (drop (index q) code)
                                = (c # cs) @ ''--}}''" .
  from getCharAt_take_drop [OF t, of 0] have cc: "currentChar code q = Some c"
    by (simp add: currentChar_def)
  have "take 4 (drop (index q) code)
          = take 4 (take (length (c # cs) + 4) (drop (index q) code))"
    by (simp add: min_def)
  also have "\<dots> = take 4 (drop 0 ((c # cs) @ ''--}}''))" by (simp only: t drop_0)
  finally have nf: "\<not> areNextChars code q ''--}}''"
    using Cons.prems(2) by (auto simp: areNextChars_def areNextCharsFrom_take eval_nat_numeral)
  have step: "skipUntilLoop code [''--}}''] True si sl depth q
                = skipUntilLoop code [''--}}''] True si sl ?d ?q"
    by (simp add: unf cc nf)
  from take_drop_append [of "length (c # cs) + 4" "index q" code "[c]" "cs @ ''--}}''"] t
  have t': "take (length cs + 4) (drop (index ?q) code) = cs @ ''--}}''"
    by (simp add: add.commute)
  have first': "\<forall>k<length cs. take 4 (drop k (cs @ ''--}}'')) \<noteq> ''--}}''"
  proof (intro allI impI)
    fix k assume "k < length cs"
    then have "Suc k < length (c # cs)" by simp
    with Cons.prems(2) have "take 4 (drop (Suc k) ((c # cs) @ ''--}}'')) \<noteq> ''--}}''"
      by blast
    then show "take 4 (drop k (cs @ ''--}}'')) \<noteq> ''--}}''" by simp
  qed
  from Cons.prems(3) have d': "depthAfter ?d cs = 0" by simp
  from Cons.IH [OF t' first' d'] obtain r where
    "skipUntilLoop code [''--}}''] True si sl ?d ?q
       = Inr (r, advance code (length cs + 4) ?q)" ..
  moreover have "advance code (length cs + 4) ?q = advance code (length (c # cs) + 4) q"
    using advance_add [of code 1 "length cs + 4" q] by simp
  ultimately show ?case using step by simp
qed

lemma skipInlineComment_comment:
  assumes "take (length body + 8) (drop (index p) code) = ''{{--'' @ body @ ''--}}''"
    and "\<forall>k<length body. take 4 (drop k (body @ ''--}}'')) \<noteq> ''--}}''"
    and "depthAfter 0 body = 0"
  shows "skipInlineComment code p = Inr (advance code (length body + 8) p)"
proof -
  from take_drop_append [of "length body + 8" "index p" code "''{{--''" "body @ ''--}}''"]
    assms(1)
  have t: "take (length body + 4) (drop (index (advance code 4 p)) code) = body @ ''--}}''"
    by (simp add: eval_nat_numeral)
  from skipUntilLoop_comment [OF t assms(2,3)] obtain r where
    "skipUntilLoop code [''--}}''] True (index (advance code 4 p)) (line (advance code 4 p)) 0
       (advance code 4 p)
      = Inr (r, advance code (length body + 4) (advance code 4 p))" ..
  moreover have "advance code (length body + 4) (advance code 4 p)
                   = advance code (length body + 8) p"
    using advance_add [of code 4 "length body + 4" p] by (simp add: add.commute)
  ultimately show ?thesis by (simp add: skipInlineComment_def skipUntilAndWith_def)
qed

text \<open>
  The text scan of \<^verbatim>\<open>#parseOnce\<close> reads the start of the pending text only when it
  returns the text.
\<close>

definition moveStart :: "nat \<Rightarrow> nat \<Rightarrow> Stop \<Rightarrow> Stop" where
  "moveStart i l st =
     (case st of
        StopText a q \<Rightarrow> StopText (a\<lparr>startIndex := i, startLine := l\<rparr>) q
      | StopInline q \<Rightarrow> StopInline q
      | StopTag q \<Rightarrow> StopTag q
      | StopError e \<Rightarrow> StopError e)"

lemma textScan_moveStart:
  "acc_value b = acc_value a \<Longrightarrow>
     textScan code b p = moveStart (startIndex b) (startLine b) (textScan code a p)"
proof (induction code a p arbitrary: b rule: textScan.induct)
  case (1 code a p)
  note unfL = textScan.simps [of code b p]
  note unfR = textScan.simps [of code a p]
  note av = "1.prems"
  have base: "moveStart (startIndex b) (startLine b) (StopText a p) = StopText b p"
    using av by (simp add: moveStart_def)
  show ?case
  proof (cases "currentChar code p")
    case None
    then have "textScan code b p = StopText b p" and "textScan code a p = StopText a p"
      by (simp_all add: unfL unfR)
    with base show ?thesis by simp
  next
    case cc: (Some c)
    show ?thesis
    proof (cases "c = CHR 0x5C \<and> peek code 1 p = Some (CHR ''{'') \<and> peek code 2 p = Some (CHR ''{'')")
      case esc: True
      have eqL: "textScan code b p = textScan code b (advance code 3 p)"
        by (simp only: unfL cc option.case if_P [OF esc])
      have eqR: "textScan code a p = textScan code a (advance code 3 p)"
        by (simp only: unfR cc option.case if_P [OF esc])
      from "1.IH"(1) [OF cc esc av] show ?thesis by (simp only: eqL eqR)
    next
      case nesc: False
      show ?thesis
      proof (cases "(c = CHR ''{'' \<and> peek code 1 p = Some (CHR ''{''))
                  \<or> (c = CHR ''!'' \<and> peek code 1 p = Some (CHR ''{'')
                      \<and> peek code 1 p = Some (CHR ''{''))")
        case opener: True
        show ?thesis
        proof (cases "acc_value a \<noteq> []")
          case True
          with av have tb: "acc_value b \<noteq> []" by simp
          have "textScan code b p = StopText b p"
            by (simp only: unfL cc option.case if_not_P [OF nesc] if_P [OF opener] if_P [OF tb])
          moreover have "textScan code a p = StopText a p"
            by (simp only: unfR cc option.case if_not_P [OF nesc] if_P [OF opener] if_P [OF True])
          ultimately show ?thesis using base by simp
        next
          case empty: False
          with av have eb: "\<not> acc_value b \<noteq> []" by simp
          show ?thesis
          proof (cases "peek code 2 p = Some (CHR ''-'') \<and> peek code 3 p = Some (CHR ''-'')")
            case comment: True
            show ?thesis
            proof (cases "skipInlineComment code p")
              case (Inl e)
              have "textScan code b p = StopError e"
                by (simp only: unfL cc option.case if_not_P [OF nesc] if_P [OF opener] if_not_P [OF eb] if_P [OF comment] Inl sum.case)
              moreover have "textScan code a p = StopError e"
                by (simp only: unfR cc option.case if_not_P [OF nesc] if_P [OF opener] if_not_P [OF empty] if_P [OF comment] Inl sum.case)
              ultimately show ?thesis by (simp add: moveStart_def)
            next
              case (Inr p')
              have eqL: "textScan code b p = textScan code b p'"
                by (simp only: unfL cc option.case if_not_P [OF nesc] if_P [OF opener] if_not_P [OF eb] if_P [OF comment] Inr sum.case)
              have eqR: "textScan code a p = textScan code a p'"
                by (simp only: unfR cc option.case if_not_P [OF nesc] if_P [OF opener] if_not_P [OF empty] if_P [OF comment] Inr sum.case)
              from "1.IH"(2) [OF cc nesc opener empty comment Inr av] show ?thesis
                by (simp only: eqL eqR)
            qed
          next
            case False
            have "textScan code b p = StopInline p"
              by (simp only: unfL cc option.case if_not_P [OF nesc] if_P [OF opener] if_not_P [OF eb] if_not_P [OF False])
            moreover have "textScan code a p = StopInline p"
              by (simp only: unfR cc option.case if_not_P [OF nesc] if_P [OF opener] if_not_P [OF empty] if_not_P [OF False])
            ultimately show ?thesis by (simp add: moveStart_def)
          qed
        qed
      next
        case nopener: False
        show ?thesis
        proof (cases "c = CHR 0x5C \<and> peek code 1 p = Some (CHR ''@'')")
          case escAt: True
          have eqL: "textScan code b p = textScan code b (advance code 2 p)"
            by (simp only: unfL cc option.case if_not_P [OF nesc] if_not_P [OF nopener] if_P [OF escAt])
          have eqR: "textScan code a p = textScan code a (advance code 2 p)"
            by (simp only: unfR cc option.case if_not_P [OF nesc] if_not_P [OF nopener] if_P [OF escAt])
          from "1.IH"(3) [OF cc nesc nopener escAt av] show ?thesis by (simp only: eqL eqR)
        next
          case nescAt: False
          show ?thesis
          proof (cases "c = CHR ''@''")
            case at: True
            have "textScan code b p =
                    (if acc_value b \<noteq> [] then StopText b p else StopTag p)"
              by (simp only: unfL cc option.case if_not_P [OF nesc] if_not_P [OF nopener] if_not_P [OF nescAt] if_P [OF at])
            moreover have "textScan code a p =
                    (if acc_value a \<noteq> [] then StopText a p else StopTag p)"
              by (simp only: unfR cc option.case if_not_P [OF nesc] if_not_P [OF nopener] if_not_P [OF nescAt] if_P [OF at])
            ultimately show ?thesis using base av by (simp add: moveStart_def)
          next
            case nat: False
            let ?b = "b\<lparr>acc_value := acc_value b @ [c]\<rparr>"
            let ?a = "a\<lparr>acc_value := acc_value a @ [c]\<rparr>"
            have eqL: "textScan code b p = textScan code ?b (advance code 1 p)"
              by (simp only: unfL cc option.case if_not_P [OF nesc] if_not_P [OF nopener] if_not_P [OF nescAt] if_not_P [OF nat])
            have eqR: "textScan code a p = textScan code ?a (advance code 1 p)"
              by (simp only: unfR cc option.case if_not_P [OF nesc] if_not_P [OF nopener] if_not_P [OF nescAt] if_not_P [OF nat])
            from av have av': "acc_value ?b = acc_value ?a" by simp
            from "1.IH"(4) [OF cc nesc nopener nescAt nat av'] show ?thesis
              by (simp add: eqL eqR)
          qed
        qed
      qed
    qed
  qed
qed

text \<open>
  A tag never returns a Text statement, and neither does an inline expression.
\<close>

lemma makeAtTag_not_text:
  assumes "makeAtTag pus code ai ad ap as p = Some (Inr (s, p'))"
  shows "name s \<noteq> SN_TextStatement"
proof -
  let ?p2 = "tagNameLoop code (advance code 1 p)"
  let ?tag = "tagNameAt code p"
  note d = makeAtTag_def Let_def tagNameAt_def
  consider (each) "?tag = ''each''" | (iff) "?tag = ''if''" | (elseif) "?tag = ''elseif''"
    | (els) "?tag = ''else''" | (lett) "?tag = ''let''" | (assign) "?tag = ''assign''"
    | (component) "?tag = ''component''" | (import) "?tag = ''import''"
    | (param) "?tag = ''param''" | (defslot) "?tag = ''defslot''" | (slot) "?tag = ''slot''"
    | (endd) "?tag = ''end''"
    | (other) "?tag \<notin> {''each'', ''if'', ''elseif'', ''else'', ''let'', ''assign'', ''component'',
                        ''import'', ''param'', ''defslot'', ''slot'', ''end''}"
    by blast
  then show ?thesis
  proof cases
    case each
    with assms have "makeEachStatement pus code (index p) (line p) ?p2 = Some (Inr (s, p'))"
      by (simp add: d)
    from makeEachStatement_name [OF this] show ?thesis by simp
  next
    case iff
    with assms have "makeIfStatement pus code (index p) (line p) ?p2 = Some (Inr (s, p'))"
      by (simp add: d)
    from makeIfStatement_name [OF this] show ?thesis by simp
  next
    case elseif
    with assms have "makeElseIfStatement pus code (index p) (line p) ?p2 = Some (Inr (s, p'))"
      by (simp add: d)
    from makeElseIfStatement_name [OF this] show ?thesis by simp
  next
    case els
    with assms have "makeElseStatement pus code (index p) (line p) ?p2 = Some (Inr (s, p'))"
      by (simp add: d)
    from makeElseStatement_name [OF this] show ?thesis by simp
  next
    case lett
    with assms have "makeLetStatement code (index p) (line p) ?p2 = Some (Inr (s, p'))"
      by (simp add: d)
    from makeLetStatement_name [OF this] show ?thesis by simp
  next
    case assign
    with assms have "makeAssignStatement code (index p) (line p) ?p2 = Some (Inr (s, p'))"
      by (simp add: d)
    from makeAssignStatement_name [OF this] show ?thesis by simp
  next
    case component
    with assms
    have "makeComponentStatement pus code (index p) (line p) ?p2 = Some (Inr (s, p'))"
      by (simp add: d)
    from makeComponentStatement_name [OF this] show ?thesis by simp
  next
    case import
    with assms have "makeImportStatement code (index p) (line p) ?p2 = Some (Inr (s, p'))"
      by (simp add: d split: if_splits)
    from makeImportStatement_name [OF this] show ?thesis by simp
  next
    case param
    with assms have "makeParamStatement code (index p) (line p) ?p2 = Some (Inr (s, p'))"
      by (simp add: d split: if_splits)
    from makeParamStatement_name [OF this] show ?thesis by simp
  next
    case defslot
    with assms
    have "makeDefineSlotStatement code (index p) (line p) ?p2 = Some (Inr (s, p'))"
      by (simp add: d split: if_splits)
    from makeDefineSlotStatement_name [OF this] show ?thesis by simp
  next
    case slot
    with assms
    have "makeComponentSlotStatement pus code (index p) (line p) ?p2 = Some (Inr (s, p'))"
      by (simp add: d split: if_splits)
    from makeComponentSlotStatement_name [OF this] show ?thesis by simp
  next
    case endd
    with assms have "s = EndStatement (newPositionRange (index p) (line p) (Some (index ?p2)))"
      by (auto simp: d)
    then show ?thesis by simp
  next
    case other
    with assms show ?thesis by (simp add: d)
  qed
qed

text \<open>
  What \<^verbatim>\<open>#parseOnce\<close> returns when its pending text is empty but was started at
  \<open>(i, l)\<close> instead of at the cursor: the same, except that a Text statement starts at
  \<open>(i, l)\<close>.
\<close>

definition textStartingAt ::
  "nat \<Rightarrow> nat \<Rightarrow> (Statement \<times> Parser) outcome \<Rightarrow> (Statement \<times> Parser) outcome"
where
  "textStartingAt i l r =
     (case r of
        Some (Inr (TextStatement pos v, q)) \<Rightarrow>
          Some (Inr (TextStatement (newPositionRange i l (Some (endp pos))) v, q))
      | _ \<Rightarrow> r)"

lemma textStartingAt_other:
  "name s \<noteq> SN_TextStatement \<Longrightarrow> textStartingAt i l (Some (Inr (s, q))) = Some (Inr (s, q))"
  by (cases s) (simp_all add: textStartingAt_def)

lemma parseOnceLoop_textStartingAt:
  assumes "acc_value accumilator = []"
  shows "parseOnceLoop pus code ai ad ap as accumilator p
           = textStartingAt (startIndex accumilator) (startLine accumilator)
               (parseOnce pus code ai ad ap as p)"
proof -
  let ?a = "\<lparr>acc_value = [], startIndex = index p, startLine = line p\<rparr>"
  let ?i = "startIndex accumilator" and ?l = "startLine accumilator"
  from assms have "acc_value accumilator = acc_value ?a" by simp
  from textScan_moveStart [OF this]
  have scan: "textScan code accumilator p = moveStart ?i ?l (textScan code ?a p)" .
  show ?thesis
  proof (cases "textScan code ?a p")
    case (StopText a q)
    then show ?thesis
      by (simp add: parseOnce_def parseOnceLoop_textScan scan moveStart_def afterScan_def
            makeAccumilator_def textStartingAt_def newPositionRange_def)
  next
    case (StopInline q)
    show ?thesis
    proof (cases "makeInlineTsCodeStatement code q")
      case (Inl e)
      with StopInline show ?thesis
        by (simp add: parseOnce_def parseOnceLoop_textScan scan moveStart_def afterScan_def
              textStartingAt_def)
    next
      case (Inr sq)
      obtain s q' where sq: "sq = (s, q')" by (cases sq)
      from makeInlineTsCodeStatement_name [OF Inr [unfolded sq]]
      have "name s \<noteq> SN_TextStatement" by auto
      from textStartingAt_other [OF this] StopInline Inr sq show ?thesis
        by (simp add: parseOnce_def parseOnceLoop_textScan scan moveStart_def afterScan_def)
    qed
  next
    case (StopTag q)
    show ?thesis
    proof (cases "makeAtTag pus code ai ad ap as q")
      case None
      with StopTag show ?thesis
        by (simp add: parseOnce_def parseOnceLoop_textScan scan moveStart_def afterScan_def
              textStartingAt_def)
    next
      case (Some r)
      show ?thesis
      proof (cases r)
        case (Inl e)
        with Some StopTag show ?thesis
          by (simp add: parseOnce_def parseOnceLoop_textScan scan moveStart_def afterScan_def
                textStartingAt_def)
      next
        case (Inr sq)
        obtain s q' where sq: "sq = (s, q')" by (cases sq)
        from Some Inr sq have "makeAtTag pus code ai ad ap as q = Some (Inr (s, q'))" by simp
        from textStartingAt_other [OF makeAtTag_not_text [OF this]] StopTag Some Inr sq
        show ?thesis
          by (simp add: parseOnce_def parseOnceLoop_textScan scan moveStart_def afterScan_def)
      qed
    qed
  next
    case (StopError e)
    then show ?thesis
      by (simp add: parseOnce_def parseOnceLoop_textScan scan moveStart_def afterScan_def
            textStartingAt_def)
  qed
qed

section \<open>The claims\<close>

text \<open>
  C3, on the template \<^verbatim>\<open>a\@b\<close> and on the template \<^verbatim>\<open>a\{{b\<close>: the escape opens neither a
  directive nor an inline expression, but the Text statement of the run holds \<^verbatim>\<open>ab\<close>:
  the escaped \<^verbatim>\<open>@\<close> and \<^verbatim>\<open>{{\<close> are passed over without being appended to the text.
\<close>

theorem escape_drops_the_literal:
  "parse [CHR ''a'', CHR 0x5C, CHR ''@'', CHR ''b'']
     = Some (Inr [TextStatement \<lparr>start = 0, endp = 4, lineStart = 0\<rparr> ''ab''])
   \<and> parse [CHR ''a'', CHR 0x5C, CHR ''{'', CHR ''{'', CHR ''b'']
     = Some (Inr [TextStatement \<lparr>start = 0, endp = 5, lineStart = 0\<rparr> ''ab''])"
  by code_simp

text \<open>
  C7, on the template \<^verbatim>\<open>@each(x in xs)@end\<close>: the parsed loop variable is \<^verbatim>\<open>x\<close> and the
  parsed iterator is \<^verbatim>\<open>xs\<close>, and the plain description reports \<^verbatim>\<open>x\<close> for both the
  variable and the iterator.
\<close>

theorem each_toObject_iterator_is_variable:
  "parse ''@each(x in xs)@end''
     = Some (Inr [EachStatement \<lparr>start = 0, endp = 18, lineStart = 0\<rparr>
                    (TsCodeExpression \<lparr>start = 11, endp = 13, lineStart = 0\<rparr> ''xs'')
                    (TsCodeExpression \<lparr>start = 6, endp = 7, lineStart = 0\<rparr> ''x'') []])
   \<and> map_option (map_sum id (map toObject)) (parse ''@each(x in xs)@end'')
     = Some (Inr [Some (EachStatementObject ''x'' ''x'' [])])"
  by code_simp

text \<open>
  C8, on the template \<^verbatim>\<open>{{ x }}!{{ x }}\<close>: the flattened string of the raw inline
  statement \<^verbatim>\<open>!{{ x }}\<close> starts with the marker \<^verbatim>\<open>$line = 1\<close>, the flattened string of the
  escaped inline statement \<^verbatim>\<open>{{ x }}\<close> has no marker.
\<close>

theorem inline_safe_has_no_line_marker:
  "map_option (map_sum id (map toCompiledString)) (parse ''{{ x }}!{{ x }}'')
     = Some (Inr [''out += $api.safeString(String(x))'',
                  ''$line = 1\<newline>'' @ [CHR 0x09] @ ''out += String(x)''])"
  by code_simp

text \<open>
  C9: in the result of a successful parse no statement, at any depth, has the name
  \<^verbatim>\<open>AssignStatement\<close>; an Assign statement among them has the name \<^verbatim>\<open>LetStatement\<close>,
  and its plain description has the type \<^verbatim>\<open>AssignStatement\<close>.
\<close>

theorem assign_statement_is_named_let:
  assumes "parse code = Some (Inr stmts)" and "s \<in> set (allStatements stmts)"
  shows "name s \<noteq> SN_AssignStatement
         \<and> (isAssign s \<longrightarrow> name s = SN_LetStatement
                \<and> map_option objectType (toObject s) = Some SN_AssignStatement)"
  by (cases s) simp_all

theorem assign_statement_is_named_let_witness:
  "parse ''@assign(x=1)''
     = Some (Inr [AssignStatement \<lparr>start = 0, endp = 12, lineStart = 0\<rparr>
                    (TsCodeExpression \<lparr>start = 8, endp = 9, lineStart = 0\<rparr> ''x'')
                    (TsCodeExpression \<lparr>start = 10, endp = 11, lineStart = 0\<rparr> ''1'')])
   \<and> name (AssignStatement \<lparr>start = 0, endp = 12, lineStart = 0\<rparr>
              (TsCodeExpression \<lparr>start = 8, endp = 9, lineStart = 0\<rparr> ''x'')
              (TsCodeExpression \<lparr>start = 10, endp = 11, lineStart = 0\<rparr> ''1'')) = SN_LetStatement
   \<and> map_option objectType
        (toObject (AssignStatement \<lparr>start = 0, endp = 12, lineStart = 0\<rparr>
              (TsCodeExpression \<lparr>start = 8, endp = 9, lineStart = 0\<rparr> ''x'')
              (TsCodeExpression \<lparr>start = 10, endp = 11, lineStart = 0\<rparr> ''1'')))
      = Some SN_AssignStatement"
proof -
  let ?s = "AssignStatement \<lparr>start = 0, endp = 12, lineStart = 0\<rparr>
              (TsCodeExpression \<lparr>start = 8, endp = 9, lineStart = 0\<rparr> ''x'')
              (TsCodeExpression \<lparr>start = 10, endp = 11, lineStart = 0\<rparr> ''1'')"
  have p: "parse ''@assign(x=1)'' = Some (Inr [?s])" by code_simp
  have m: "?s \<in> set (allStatements [?s])" by (simp add: allStatements_def)
  from assign_statement_is_named_let [OF p m] p show ?thesis by simp
qed

text \<open>
  C10: \<^verbatim>\<open>parse\<close> returns on every template, with a statement list or an error. The loop of
  \<^verbatim>\<open>parse\<close> is a total function whose measure is the distance of the cursor from the end
  of the template; the block reader never reaches its bound, and any larger bound gives
  the same result. One round of the loop, started anywhere before the end, ends in an
  error or returns a statement with the cursor strictly further on.
\<close>

theorem parse_terminates:
  "(\<exists>r. parse code = Some r)
   \<and> (length code \<le> fuel \<longrightarrow>
        parseLoop fuel code [] True True True \<lparr>index = 0, line = 0\<rparr> = parse code)
   \<and> (length code \<le> fuel \<longrightarrow> \<not> isAtEnd code p \<longrightarrow>
        (\<exists>e. parseOnce (parseUntilStatment fuel code) code ai ad ap as p = Some (Inl e))
        \<or> (\<exists>s p'. parseOnce (parseUntilStatment fuel code) code ai ad ap as p
                      = Some (Inr (s, p'))
                    \<and> index p < index p'))"
proof (intro conjI impI)
  from parseLoop_Some [of code "length code" "[]" True True True "\<lparr>index = 0, line = 0\<rparr>"]
  show ret: "\<exists>r. parse code = Some r" by (simp add: parse_def)
  then obtain r where r: "parse code = Some r" ..
  assume le: "length code \<le> fuel"
  from parseLoop_mono [OF r [unfolded parse_def] le] r
  show "parseLoop fuel code [] True True True \<lparr>index = 0, line = 0\<rparr> = parse code"
    by simp
next
  assume le: "length code \<le> fuel" and notEnd: "\<not> isAtEnd code p"
  let ?pus = "parseUntilStatment fuel code"
  from notEnd have inb: "index p < length code"
    by (simp add: isAtEnd_def currentChar_def getCharAt_def split: if_splits)
  have sub: "\<And>names allow q. index p < index q \<Longrightarrow> ?pus names allow q \<noteq> None"
  proof -
    fix names allow and q :: Parser
    assume "index p < index q"
    with inb le have "length code - index q < fuel" by arith
    then show "?pus names allow q \<noteq> None"
      unfolding parseUntilStatment_def by (rule parseUntilLoop_Some)
  qed
  have "parseOnce ?pus code ai ad ap as p \<noteq> None"
    unfolding parseOnce_def by (rule parseOnceLoop_Some) (rule sub)
  then obtain x where x: "parseOnce ?pus code ai ad ap as p = Some x" by blast
  show "(\<exists>e. parseOnce ?pus code ai ad ap as p = Some (Inl e))
        \<or> (\<exists>s p'. parseOnce ?pus code ai ad ap as p = Some (Inr (s, p')) \<and> index p < index p')"
  proof (cases x)
    case (Inl e)
    with x show ?thesis by blast
  next
    case (Inr sp)
    obtain s p' where sp: "sp = (s, p')" by (cases sp)
    from parseOnce_less [OF nondecreasing_parseUntilStatment notEnd x [unfolded Inr sp]]
    have "index p < index p'" .
    with x Inr sp show ?thesis by blast
  qed
qed

theorem parse_terminates_witness:
  "parse ''a@if(b)c@end''
     = Some (Inr [TextStatement \<lparr>start = 0, endp = 1, lineStart = 0\<rparr> ''a'',
                  IfStatement \<lparr>start = 1, endp = 12, lineStart = 0\<rparr>
                    (TsCodeExpression \<lparr>start = 5, endp = 6, lineStart = 0\<rparr> ''b'')
                    [TextStatement \<lparr>start = 7, endp = 8, lineStart = 0\<rparr> ''c''] None])
   \<and> parseLoop 40 ''a@if(b)c@end'' [] True True True \<lparr>index = 0, line = 0\<rparr>
       = parse ''a@if(b)c@end''
   \<and> (\<exists>s p'. parseOnce (parseUntilStatment 40 ''a@if(b)c@end'') ''a@if(b)c@end''
                 True True True False \<lparr>index = 1, line = 0\<rparr> = Some (Inr (s, p'))
               \<and> index \<lparr>index = 1, line = 0\<rparr> < index p')"
proof -
  have v: "parse ''a@if(b)c@end''
     = Some (Inr [TextStatement \<lparr>start = 0, endp = 1, lineStart = 0\<rparr> ''a'',
                  IfStatement \<lparr>start = 1, endp = 12, lineStart = 0\<rparr>
                    (TsCodeExpression \<lparr>start = 5, endp = 6, lineStart = 0\<rparr> ''b'')
                    [TextStatement \<lparr>start = 7, endp = 8, lineStart = 0\<rparr> ''c''] None])"
    by code_simp
  have le: "length ''a@if(b)c@end'' \<le> 40" by simp
  have ne: "\<not> isAtEnd ''a@if(b)c@end'' \<lparr>index = 1, line = 0\<rparr>" by code_simp
  have noErr: "\<And>e. parseOnce (parseUntilStatment 40 ''a@if(b)c@end'') ''a@if(b)c@end''
                 True True True False \<lparr>index = 1, line = 0\<rparr> \<noteq> Some (Inl e)"
    by code_simp
  from parse_terminates [of "''a@if(b)c@end''" 40 "\<lparr>index = 1, line = 0\<rparr>" True True True False]
    le ne noErr v
  show ?thesis by blast
qed

text \<open>
  C6: for every \<^verbatim>\<open>If\<close> statement in the result of a successful parse, at any depth, the
  statements reached by following \<^verbatim>\<open>next\<close> are zero or more \<^verbatim>\<open>ElseIf\<close> statements and then
  at most one \<^verbatim>\<open>Else\<close> statement; every \<^verbatim>\<open>next\<close> on the way is an \<^verbatim>\<open>ElseIf\<close> or an \<^verbatim>\<open>Else\<close>;
  an \<^verbatim>\<open>Else\<close> has no \<^verbatim>\<open>next\<close>; and no statement is met twice. The traversal \<open>chain\<close>
  is a total function: it ends on every statement.
\<close>

theorem if_chain_is_elseifs_then_else:
  assumes "parse code = Some (Inr stmts)" and "s \<in> set (allStatements stmts)" and "isIf s"
  shows "chainShape (chain s)
         \<and> list_all nextIsElseIfOrElse (s # chain s)
         \<and> list_all (\<lambda>t. isElse t \<longrightarrow> nextOf t = None) (chain s)
         \<and> distinct (s # chain s)"
  using wellFormed_chain [OF parse_wf [OF assms(1,2)]] chain_distinct [of s] by blast

theorem if_chain_is_elseifs_then_else_witness:
  "parse ''@if(a)x@elseif(b)y@else z@end''
     = Some (Inr [IfStatement \<lparr>start = 0, endp = 7, lineStart = 0\<rparr>
         (TsCodeExpression \<lparr>start = 4, endp = 5, lineStart = 0\<rparr> ''a'')
         [TextStatement \<lparr>start = 6, endp = 7, lineStart = 0\<rparr> ''x'']
         (Some (ElseIfStatement \<lparr>start = 7, endp = 18, lineStart = 0\<rparr>
             (TsCodeExpression \<lparr>start = 15, endp = 16, lineStart = 0\<rparr> ''b'')
             [TextStatement \<lparr>start = 17, endp = 18, lineStart = 0\<rparr> ''y'']
             (Some (ElseStatement \<lparr>start = 18, endp = 29, lineStart = 0\<rparr>
                 [TextStatement \<lparr>start = 23, endp = 25, lineStart = 0\<rparr> '' z'']))))])
   \<and> chain (IfStatement \<lparr>start = 0, endp = 7, lineStart = 0\<rparr>
         (TsCodeExpression \<lparr>start = 4, endp = 5, lineStart = 0\<rparr> ''a'')
         [TextStatement \<lparr>start = 6, endp = 7, lineStart = 0\<rparr> ''x'']
         (Some (ElseIfStatement \<lparr>start = 7, endp = 18, lineStart = 0\<rparr>
             (TsCodeExpression \<lparr>start = 15, endp = 16, lineStart = 0\<rparr> ''b'')
             [TextStatement \<lparr>start = 17, endp = 18, lineStart = 0\<rparr> ''y'']
             (Some (ElseStatement \<lparr>start = 18, endp = 29, lineStart = 0\<rparr>
                 [TextStatement \<lparr>start = 23, endp = 25, lineStart = 0\<rparr> '' z''])))))
     = [ElseIfStatement \<lparr>start = 7, endp = 18, lineStart = 0\<rparr>
             (TsCodeExpression \<lparr>start = 15, endp = 16, lineStart = 0\<rparr> ''b'')
             [TextStatement \<lparr>start = 17, endp = 18, lineStart = 0\<rparr> ''y'']
             (Some (ElseStatement \<lparr>start = 18, endp = 29, lineStart = 0\<rparr>
                 [TextStatement \<lparr>start = 23, endp = 25, lineStart = 0\<rparr> '' z''])),
        ElseStatement \<lparr>start = 18, endp = 29, lineStart = 0\<rparr>
                 [TextStatement \<lparr>start = 23, endp = 25, lineStart = 0\<rparr> '' z'']]
   \<and> chainShape (chain (IfStatement \<lparr>start = 0, endp = 7, lineStart = 0\<rparr>
         (TsCodeExpression \<lparr>start = 4, endp = 5, lineStart = 0\<rparr> ''a'')
         [TextStatement \<lparr>start = 6, endp = 7, lineStart = 0\<rparr> ''x'']
         (Some (ElseIfStatement \<lparr>start = 7, endp = 18, lineStart = 0\<rparr>
             (TsCodeExpression \<lparr>start = 15, endp = 16, lineStart = 0\<rparr> ''b'')
             [TextStatement \<lparr>start = 17, endp = 18, lineStart = 0\<rparr> ''y'']
             (Some (ElseStatement \<lparr>start = 18, endp = 29, lineStart = 0\<rparr>
                 [TextStatement \<lparr>start = 23, endp = 25, lineStart = 0\<rparr> '' z'']))))))"
proof -
  let ?else = "ElseStatement \<lparr>start = 18, endp = 29, lineStart = 0\<rparr>
                 [TextStatement \<lparr>start = 23, endp = 25, lineStart = 0\<rparr> '' z'']"
  let ?elseif = "ElseIfStatement \<lparr>start = 7, endp = 18, lineStart = 0\<rparr>
             (TsCodeExpression \<lparr>start = 15, endp = 16, lineStart = 0\<rparr> ''b'')
             [TextStatement \<lparr>start = 17, endp = 18, lineStart = 0\<rparr> ''y''] (Some ?else)"
  let ?if = "IfStatement \<lparr>start = 0, endp = 7, lineStart = 0\<rparr>
         (TsCodeExpression \<lparr>start = 4, endp = 5, lineStart = 0\<rparr> ''a'')
         [TextStatement \<lparr>start = 6, endp = 7, lineStart = 0\<rparr> ''x''] (Some ?elseif)"
  have p: "parse ''@if(a)x@elseif(b)y@else z@end'' = Some (Inr [?if])" by code_simp
  have m: "?if \<in> set (allStatements [?if])" by (simp add: allStatements_def)
  have i: "isIf ?if" by simp
  have c: "chain ?if = [?elseif, ?else]" by simp
  from if_chain_is_elseifs_then_else [OF p m i] p c show ?thesis by simp
qed

text \<open>
  C4, on the template \<^verbatim>\<open>@component(a,b)@slot(main)x@end@end\<close>: a \<^verbatim>\<open>@slot\<close> named \<^verbatim>\<open>main\<close>
  inside a component body raises nothing and becomes a \<^verbatim>\<open>ComponentSlot\<close> statement.
\<close>

theorem slot_named_main_is_accepted:
  "parse ''@component(a,b)@slot(main)x@end@end''
     = Some (Inr [ComponentStatement \<lparr>start = 0, endp = 35, lineStart = 0\<rparr>
         (TsCodeExpression \<lparr>start = 11, endp = 12, lineStart = 0\<rparr> ''a'')
         (TsCodeExpression \<lparr>start = 13, endp = 14, lineStart = 0\<rparr> ''b'')
         (ComponentMainSlotStatement \<lparr>start = 0, endp = 35, lineStart = 0\<rparr> [])
         [ComponentSlotStatement \<lparr>start = 15, endp = 31, lineStart = 0\<rparr>
           (TsCodeExpression \<lparr>start = 21, endp = 25, lineStart = 0\<rparr> ''main'')
           None
           [TextStatement \<lparr>start = 26, endp = 27, lineStart = 0\<rparr> ''x'']]])"
  by code_simp

text \<open>
  C4 as amended: when the slot name that \<^verbatim>\<open>@defslot\<close> scans (after the opening
  parenthesis, up to \<^verbatim>\<open>:\<close> or \<^verbatim>\<open>)\<close>, trimmed) is \<^verbatim>\<open>main\<close>, the reserved-slot-name error is
  raised at the position of the name; and no \<^verbatim>\<open>DefineSlot\<close> statement in the result of a
  successful parse is named \<^verbatim>\<open>main\<close>.
\<close>

theorem defslot_named_main_is_rejected:
  "(consume code (CHR ''('') p = Inr p1 \<longrightarrow>
    skipUntilAndWith code ['':'', '')''] False p1 = Inr (r, p2) \<longrightarrow>
    vp_value r = ''main'' \<longrightarrow>
      makeDefineSlotStatement code si sl p
        = Some (Inl (SlotDefinitionNamedMainError (vp_position r))))
   \<and> (parse code' = Some (Inr stmts) \<longrightarrow>
      DefineSlotStatement pos slotName slotArguments \<in> set (allStatements stmts) \<longrightarrow>
      exprValue slotName \<noteq> ''main'')"
proof (intro conjI impI)
  assume "consume code (CHR ''('') p = Inr p1"
    and "skipUntilAndWith code ['':'', '')''] False p1 = Inr (r, p2)"
    and "vp_value r = ''main''"
  then show "makeDefineSlotStatement code si sl p
               = Some (Inl (SlotDefinitionNamedMainError (vp_position r)))"
    by (simp add: makeDefineSlotStatement_def bindE_def)
next
  assume "parse code' = Some (Inr stmts)"
    and "DefineSlotStatement pos slotName slotArguments \<in> set (allStatements stmts)"
  from parse_wf [OF this] show "exprValue slotName \<noteq> ''main''" by simp
qed

theorem defslot_named_main_is_rejected_witness:
  "parse ''@defslot(main)''
     = Some (Inl (SlotDefinitionNamedMainError \<lparr>start = 9, endp = 13, lineStart = 0\<rparr>))
   \<and> makeDefineSlotStatement ''@defslot(main)'' 0 0 \<lparr>index = 8, line = 0\<rparr>
     = Some (Inl (SlotDefinitionNamedMainError \<lparr>start = 9, endp = 13, lineStart = 0\<rparr>))
   \<and> parse ''@defslot(mainly)''
     = Some (Inr [DefineSlotStatement \<lparr>start = 0, endp = 16, lineStart = 0\<rparr>
                    (TsCodeExpression \<lparr>start = 9, endp = 15, lineStart = 0\<rparr> ''mainly'') None])
   \<and> exprValue (TsCodeExpression \<lparr>start = 9, endp = 15, lineStart = 0\<rparr> ''mainly'') \<noteq> ''main''"
proof -
  let ?r = "\<lparr>vp_value = ''main'', vp_position = \<lparr>start = 9, endp = 13, lineStart = 0\<rparr>,
             controllChar = '')''\<rparr>"
  let ?d = "DefineSlotStatement \<lparr>start = 0, endp = 16, lineStart = 0\<rparr>
              (TsCodeExpression \<lparr>start = 9, endp = 15, lineStart = 0\<rparr> ''mainly'') None"
  have e: "parse ''@defslot(main)''
     = Some (Inl (SlotDefinitionNamedMainError \<lparr>start = 9, endp = 13, lineStart = 0\<rparr>))"
    by code_simp
  have c: "consume ''@defslot(main)'' (CHR ''('') \<lparr>index = 8, line = 0\<rparr>
             = Inr \<lparr>index = 9, line = 0\<rparr>"
    by code_simp
  have k: "skipUntilAndWith ''@defslot(main)'' ['':'', '')''] False \<lparr>index = 9, line = 0\<rparr>
             = Inr (?r, \<lparr>index = 14, line = 0\<rparr>)"
    by code_simp
  have v: "vp_value ?r = ''main''" by simp
  have p: "parse ''@defslot(mainly)'' = Some (Inr [?d])" by code_simp
  have m: "?d \<in> set (allStatements [?d])" by (simp add: allStatements_def)
  from defslot_named_main_is_rejected
         [of "''@defslot(main)''" "\<lparr>index = 8, line = 0\<rparr>" "\<lparr>index = 9, line = 0\<rparr>"
             ?r "\<lparr>index = 14, line = 0\<rparr>" 0 0 "''@defslot(mainly)''" "[?d]"
             "\<lparr>start = 0, endp = 16, lineStart = 0\<rparr>"
             "TsCodeExpression \<lparr>start = 9, endp = 15, lineStart = 0\<rparr> ''mainly''" None]
       c k v p m e
  show ?thesis by simp
qed



text \<open>
  Claim C2. Let \<open>st\<close> be the variables of the loop of \<^verbatim>\<open>parse\<close> after any number \<open>n\<close> of
  rounds on any template. (1) Each gate is open exactly when every top-level statement
  parsed so far is in its allowed set: Text and Import for \<^verbatim>\<open>@import\<close>, these and DefineSlot
  for \<^verbatim>\<open>@defslot\<close>, these and Param for \<^verbatim>\<open>@param\<close>. (2) So the next round returns an Import,
  DefineSlot or Param statement only if all previous statements are in the allowed set
  of that statement. (3) Where the next round would return such a statement with all
  gates open, but a previous statement is outside its allowed set, \<^verbatim>\<open>parse\<close> ends with the
  ordering error. (4) A gate that is closed in \<open>st\<close> is closed after any number \<open>k\<close> of
  further rounds.
\<close>

theorem gates_follow_the_previous_statements:
  assumes "parseRounds n (length code) code initialState = Some st"
  shows "((allowImportStatements st
            \<longleftrightarrow> list_all (\<lambda>t. name t \<in> {SN_TextStatement, SN_ImportStatement})
                  (statements st))
          \<and> (allowDefineSlotStatement st
            \<longleftrightarrow> list_all (\<lambda>t. name t \<in> {SN_TextStatement, SN_ImportStatement,
                                         SN_DefineSlotStatement}) (statements st))
          \<and> (allowParamStatement st
            \<longleftrightarrow> list_all (\<lambda>t. name t \<in> {SN_TextStatement, SN_ImportStatement,
                                         SN_DefineSlotStatement, SN_ParamStatement})
                  (statements st)))
         \<and> (parseOnce (parseUntilStatment (length code) code) code (allowImportStatements st)
               (allowDefineSlotStatement st) (allowParamStatement st) False (cursor st)
              = Some (Inr (s, p')) \<longrightarrow>
               (name s = SN_ImportStatement \<longrightarrow>
                  list_all (\<lambda>t. name t \<in> {SN_TextStatement, SN_ImportStatement})
                    (statements st))
               \<and> (name s = SN_DefineSlotStatement \<longrightarrow>
                  list_all (\<lambda>t. name t \<in> {SN_TextStatement, SN_ImportStatement,
                                           SN_DefineSlotStatement}) (statements st))
               \<and> (name s = SN_ParamStatement \<longrightarrow>
                  list_all (\<lambda>t. name t \<in> {SN_TextStatement, SN_ImportStatement,
                                           SN_DefineSlotStatement, SN_ParamStatement})
                    (statements st)))
         \<and> (parseOnce (parseUntilStatment (length code) code) code True True True False
               (cursor st) = Some (Inr (t, q))
             \<and> (name t = SN_ImportStatement
                  \<and> \<not> list_all (\<lambda>t. name t \<in> {SN_TextStatement, SN_ImportStatement})
                        (statements st)
                \<or> name t = SN_DefineSlotStatement
                  \<and> \<not> list_all (\<lambda>t. name t \<in> {SN_TextStatement, SN_ImportStatement,
                                               SN_DefineSlotStatement}) (statements st)
                \<or> name t = SN_ParamStatement
                  \<and> \<not> list_all (\<lambda>t. name t \<in> {SN_TextStatement, SN_ImportStatement,
                                               SN_DefineSlotStatement, SN_ParamStatement})
                        (statements st)) \<longrightarrow>
               (\<exists>pos. parse code = Some (Inl (InvalidImportSlotsParamsOrder pos))))
         \<and> (parseRounds k (length code) code st = Some st' \<longrightarrow>
               (\<not> allowImportStatements st \<longrightarrow> \<not> allowImportStatements st')
               \<and> (\<not> allowDefineSlotStatement st \<longrightarrow> \<not> allowDefineSlotStatement st')
               \<and> (\<not> allowParamStatement st \<longrightarrow> \<not> allowParamStatement st'))"
proof -
  from parseRounds_gatesMatch [OF gatesMatch_initialState assms]
  have g: "gatesMatch st" .
  have one: "(allowImportStatements st
            \<longleftrightarrow> list_all (\<lambda>t. name t \<in> {SN_TextStatement, SN_ImportStatement})
                  (statements st))
          \<and> (allowDefineSlotStatement st
            \<longleftrightarrow> list_all (\<lambda>t. name t \<in> {SN_TextStatement, SN_ImportStatement,
                                         SN_DefineSlotStatement}) (statements st))
          \<and> (allowParamStatement st
            \<longleftrightarrow> list_all (\<lambda>t. name t \<in> {SN_TextStatement, SN_ImportStatement,
                                         SN_DefineSlotStatement, SN_ParamStatement})
                  (statements st))"
    using g by (simp only: gatesMatch_def)
  have two: "(name s = SN_ImportStatement \<longrightarrow>
                  list_all (\<lambda>t. name t \<in> {SN_TextStatement, SN_ImportStatement})
                    (statements st))
               \<and> (name s = SN_DefineSlotStatement \<longrightarrow>
                  list_all (\<lambda>t. name t \<in> {SN_TextStatement, SN_ImportStatement,
                                           SN_DefineSlotStatement}) (statements st))
               \<and> (name s = SN_ParamStatement \<longrightarrow>
                  list_all (\<lambda>t. name t \<in> {SN_TextStatement, SN_ImportStatement,
                                           SN_DefineSlotStatement, SN_ParamStatement})
                    (statements st))"
    if "parseOnce (parseUntilStatment (length code) code) code (allowImportStatements st)
               (allowDefineSlotStatement st) (allowParamStatement st) False (cursor st)
              = Some (Inr (s, p'))"
    using parseOnce_Inr_gate [OF that] one by blast
  have three: "\<exists>pos. parse code = Some (Inl (InvalidImportSlotsParamsOrder pos))"
    if once: "parseOnce (parseUntilStatment (length code) code) code True True True False
               (cursor st) = Some (Inr (t, q))"
      and closed: "name t = SN_ImportStatement
                  \<and> \<not> list_all (\<lambda>t. name t \<in> {SN_TextStatement, SN_ImportStatement})
                        (statements st)
                \<or> name t = SN_DefineSlotStatement
                  \<and> \<not> list_all (\<lambda>t. name t \<in> {SN_TextStatement, SN_ImportStatement,
                                               SN_DefineSlotStatement}) (statements st)
                \<or> name t = SN_ParamStatement
                  \<and> \<not> list_all (\<lambda>t. name t \<in> {SN_TextStatement, SN_ImportStatement,
                                               SN_DefineSlotStatement, SN_ParamStatement})
                        (statements st)"
  proof -
    from closed one
    have "name t = SN_ImportStatement \<and> \<not> allowImportStatements st
          \<or> name t = SN_DefineSlotStatement \<and> \<not> allowDefineSlotStatement st
          \<or> name t = SN_ParamStatement \<and> \<not> allowParamStatement st"
      by blast
    from runLoop_closed [OF once this] parseRounds_runLoop [OF assms]
    show ?thesis by (simp add: parse_runLoop)
  qed
  have four: "(\<not> allowImportStatements st \<longrightarrow> \<not> allowImportStatements st')
               \<and> (\<not> allowDefineSlotStatement st \<longrightarrow> \<not> allowDefineSlotStatement st')
               \<and> (\<not> allowParamStatement st \<longrightarrow> \<not> allowParamStatement st')"
    if "parseRounds k (length code) code st = Some st'"
    using parseRounds_closed [OF that] .
  from one two three four show ?thesis by blast
qed

theorem gates_follow_the_previous_statements_witness:
  "(parseRounds 1 (length ''@import(a)@import(b)'') ''@import(a)@import(b)'' initialState
      = Some \<lparr>statements =
                 [ImportStatement \<lparr>start = 0, endp = 10, lineStart = 0\<rparr>
                    (TsCodeExpression \<lparr>start = 8, endp = 9, lineStart = 0\<rparr> ''a'')],
               allowImportStatements = True, allowDefineSlotStatement = True,
               allowParamStatement = True, cursor = \<lparr>index = 10, line = 0\<rparr>\<rparr>
    \<and> list_all (\<lambda>t. name t \<in> {SN_TextStatement, SN_ImportStatement})
         (statements
            \<lparr>statements =
               [ImportStatement \<lparr>start = 0, endp = 10, lineStart = 0\<rparr>
                  (TsCodeExpression \<lparr>start = 8, endp = 9, lineStart = 0\<rparr> ''a'')],
             allowImportStatements = True, allowDefineSlotStatement = True,
             allowParamStatement = True, cursor = \<lparr>index = 10, line = 0\<rparr>\<rparr>))
   \<and> (parseRounds 1 (length ''@let(a)@import(b)'') ''@let(a)@import(b)'' initialState
      = Some \<lparr>statements =
                 [LetStatement \<lparr>start = 0, endp = 7, lineStart = 0\<rparr>
                    (TsCodeExpression \<lparr>start = 5, endp = 6, lineStart = 0\<rparr> ''a'') None],
               allowImportStatements = False, allowDefineSlotStatement = False,
               allowParamStatement = False, cursor = \<lparr>index = 7, line = 0\<rparr>\<rparr>
    \<and> (\<exists>pos. parse ''@let(a)@import(b)'' = Some (Inl (InvalidImportSlotsParamsOrder pos))))
   \<and> (parseRounds 1 (length ''@let(a)x'') ''@let(a)x'' initialState
      = Some \<lparr>statements =
                 [LetStatement \<lparr>start = 0, endp = 7, lineStart = 0\<rparr>
                    (TsCodeExpression \<lparr>start = 5, endp = 6, lineStart = 0\<rparr> ''a'') None],
               allowImportStatements = False, allowDefineSlotStatement = False,
               allowParamStatement = False, cursor = \<lparr>index = 7, line = 0\<rparr>\<rparr>
    \<and> \<not> allowParamStatement
          \<lparr>statements =
             [LetStatement \<lparr>start = 0, endp = 7, lineStart = 0\<rparr>
                (TsCodeExpression \<lparr>start = 5, endp = 6, lineStart = 0\<rparr> ''a'') None,
              TextStatement \<lparr>start = 7, endp = 8, lineStart = 0\<rparr> ''x''],
           allowImportStatements = False, allowDefineSlotStatement = False,
           allowParamStatement = False, cursor = \<lparr>index = 8, line = 0\<rparr>\<rparr>)"
proof -
  let ?c1 = "''@import(a)@import(b)''"
  let ?st1 = "\<lparr>statements =
                 [ImportStatement \<lparr>start = 0, endp = 10, lineStart = 0\<rparr>
                    (TsCodeExpression \<lparr>start = 8, endp = 9, lineStart = 0\<rparr> ''a'')],
               allowImportStatements = True, allowDefineSlotStatement = True,
               allowParamStatement = True, cursor = \<lparr>index = 10, line = 0\<rparr>\<rparr>"
  let ?s1 = "ImportStatement \<lparr>start = 10, endp = 20, lineStart = 0\<rparr>
               (TsCodeExpression \<lparr>start = 18, endp = 19, lineStart = 0\<rparr> ''b'')"
  let ?p1 = "\<lparr>index = 20, line = 0\<rparr>"
  have a1: "parseRounds 1 (length ?c1) ?c1 initialState = Some ?st1" by code_simp
  have b1: "parseOnce (parseUntilStatment (length ?c1) ?c1) ?c1 (allowImportStatements ?st1)
              (allowDefineSlotStatement ?st1) (allowParamStatement ?st1) False (cursor ?st1)
             = Some (Inr (?s1, ?p1))"
    by code_simp
  have n1: "name ?s1 = SN_ImportStatement" by simp
  note t1 = gates_follow_the_previous_statements [OF a1, of ?s1 ?p1]
  from t1 b1 n1
  have r1: "list_all (\<lambda>t. name t \<in> {SN_TextStatement, SN_ImportStatement}) (statements ?st1)"
    by blast
  let ?c2 = "''@let(a)@import(b)''"
  let ?st2 = "\<lparr>statements =
                 [LetStatement \<lparr>start = 0, endp = 7, lineStart = 0\<rparr>
                    (TsCodeExpression \<lparr>start = 5, endp = 6, lineStart = 0\<rparr> ''a'') None],
               allowImportStatements = False, allowDefineSlotStatement = False,
               allowParamStatement = False, cursor = \<lparr>index = 7, line = 0\<rparr>\<rparr>"
  let ?t2 = "ImportStatement \<lparr>start = 7, endp = 17, lineStart = 0\<rparr>
               (TsCodeExpression \<lparr>start = 15, endp = 16, lineStart = 0\<rparr> ''b'')"
  let ?q2 = "\<lparr>index = 17, line = 0\<rparr>"
  have a2: "parseRounds 1 (length ?c2) ?c2 initialState = Some ?st2" by code_simp
  have b2: "parseOnce (parseUntilStatment (length ?c2) ?c2) ?c2 True True True False
              (cursor ?st2) = Some (Inr (?t2, ?q2))"
    by code_simp
  have n2: "name ?t2 = SN_ImportStatement" by simp
  have o2: "\<not> list_all (\<lambda>t. name t \<in> {SN_TextStatement, SN_ImportStatement}) (statements ?st2)"
    by simp
  note t2 = gates_follow_the_previous_statements [OF a2, where t = ?t2 and q = ?q2]
  from t2 b2 n2 o2
  have r2: "\<exists>pos. parse ?c2 = Some (Inl (InvalidImportSlotsParamsOrder pos))"
    by blast
  let ?c3 = "''@let(a)x''"
  let ?st3 = "\<lparr>statements =
             [LetStatement \<lparr>start = 0, endp = 7, lineStart = 0\<rparr>
                (TsCodeExpression \<lparr>start = 5, endp = 6, lineStart = 0\<rparr> ''a'') None,
              TextStatement \<lparr>start = 7, endp = 8, lineStart = 0\<rparr> ''x''],
           allowImportStatements = False, allowDefineSlotStatement = False,
           allowParamStatement = False, cursor = \<lparr>index = 8, line = 0\<rparr>\<rparr>"
  have a3: "parseRounds 1 (length ?c3) ?c3 initialState = Some ?st2" by code_simp
  have b3: "parseRounds 1 (length ?c3) ?c3 ?st2 = Some ?st3" by code_simp
  have o3: "\<not> allowParamStatement ?st2" by simp
  note t3 = gates_follow_the_previous_statements [OF a3, where k = 1 and st' = ?st3]
  from t3 b3 o3 have r3: "\<not> allowParamStatement ?st3" by blast
  from a1 r1 a2 r2 a3 r3 show ?thesis by (intro conjI)
qed

text \<open>
  Claim C5, as stated, fails. A template that is only the comment \<^verbatim>\<open>{{--x--}}\<close> parses to
  one statement, an empty Text statement over the comment. In \<^verbatim>\<open>{{--(--}}a)--}}b\<close> the
  block up to the next \<^verbatim>\<open>--}}\<close> is \<^verbatim>\<open>{{--(--}}\<close>, and the text after it is \<^verbatim>\<open>a)--}}b\<close>; the
  parser discards everything up to the second \<^verbatim>\<open>--}}\<close> and returns the text \<^verbatim>\<open>b\<close>. In
  \<^verbatim>\<open>{{--(--}}a\<close> the parse fails at the end of the template, looking for \<^verbatim>\<open>--}}\<close>.
\<close>

theorem comment_gives_empty_text_and_brackets_hide_its_end:
  "parse ''{{--x--}}''
     = Some (Inr [TextStatement \<lparr>start = 0, endp = 9, lineStart = 0\<rparr> []])
   \<and> parse ''{{--(--}}a)--}}b''
     = Some (Inr [TextStatement \<lparr>start = 0, endp = 16, lineStart = 0\<rparr> ''b''])
   \<and> parse ''{{--(--}}a''
     = Some (Inl (UnexpctedError \<lparr>start = 10, endp = 11, lineStart = 0\<rparr> ''--}}'' None))"
  by code_simp

text \<open>
  Claim C5, amended. Let the cursor \<open>p\<close> of \<^verbatim>\<open>#parseOnce\<close> stand on \<^verbatim>\<open>{{--\<close>, with no pending
  text, let \<open>body\<close> be the text between these four characters and the next \<^verbatim>\<open>--}}\<close>, and
  let the bracket counter of the scanner (one up on \<^verbatim>\<open>(\<close>, \<^verbatim>\<open>[\<close>, \<^verbatim>\<open>{\<close>, one down on \<^verbatim>\<open>)\<close>,
  \<^verbatim>\<open>]\<close>, \<^verbatim>\<open>}\<close> unless it is 0) be 0 after \<open>body\<close>. Then the whole block up to and including
  that \<^verbatim>\<open>--}}\<close> is discarded: (1) \<^verbatim>\<open>#parseOnce\<close> goes on right after it with its pending text
  unchanged; (2) it returns what \<^verbatim>\<open>#parseOnce\<close> returns when called right after the block,
  the next statement or the error, except that a Text statement starts where the pending
  text was started; so no statement of its own is produced for the comment; (3) but when
  the template ends right after the block, the statement returned is an empty Text
  statement from the start of the pending text to the end of the block.
\<close>

theorem comment_is_discarded:
  assumes "acc_value accumilator = []"
    and "take (length body + 8) (drop (index p) code) = ''{{--'' @ body @ ''--}}''"
    and "\<forall>k<length body. take 4 (drop k (body @ ''--}}'')) \<noteq> ''--}}''"
    and "depthAfter 0 body = 0"
  shows "parseOnceLoop pus code ai ad ap as accumilator p
           = parseOnceLoop pus code ai ad ap as accumilator
               (advance code (length body + 8) p)
         \<and> parseOnceLoop pus code ai ad ap as accumilator p
           = textStartingAt (startIndex accumilator) (startLine accumilator)
               (parseOnce pus code ai ad ap as (advance code (length body + 8) p))
         \<and> (isAtEnd code (advance code (length body + 8) p) \<longrightarrow>
              parseOnceLoop pus code ai ad ap as accumilator p
                = Some (Inr (TextStatement
                               (newPositionRange (startIndex accumilator)
                                  (startLine accumilator) (Some (index p + length body + 8)))
                               [],
                             advance code (length body + 8) p)))"
proof -
  let ?p' = "advance code (length body + 8) p"
  note unf = parseOnceLoop.simps [of pus code ai ad ap as accumilator p]
  note t = assms(2)
  from getCharAt_take_drop [OF t, of 0] have c0: "currentChar code p = Some (CHR ''{'')"
    by (simp add: currentChar_def)
  from getCharAt_take_drop [OF t, of 1] have c1: "peek code (Suc 0) p = Some (CHR ''{'')"
    by (simp add: peek_def)
  from getCharAt_take_drop [OF t, of 2] have c2: "peek code 2 p = Some (CHR ''-'')"
    by (simp add: peek_def)
  from getCharAt_take_drop [OF t, of 3] have c3: "peek code 3 p = Some (CHR ''-'')"
    by (simp add: peek_def)
  note skip = skipInlineComment_comment [OF assms(2,3,4)]
  have one: "parseOnceLoop pus code ai ad ap as accumilator p
               = parseOnceLoop pus code ai ad ap as accumilator ?p'"
    by (simp add: unf c0 c1 c2 c3 skip assms(1))
  have two: "parseOnceLoop pus code ai ad ap as accumilator p
               = textStartingAt (startIndex accumilator) (startLine accumilator)
                   (parseOnce pus code ai ad ap as ?p')"
    using parseOnceLoop_textStartingAt [OF assms(1), of pus code ai ad ap as ?p']
    by (simp only: one)
  have three: "parseOnceLoop pus code ai ad ap as accumilator p
                = Some (Inr (TextStatement
                               (newPositionRange (startIndex accumilator)
                                  (startLine accumilator) (Some (index p + length body + 8)))
                               [],
                             ?p'))"
    if "isAtEnd code ?p'"
    using that assms(1)
    by (simp add: one isAtEnd_def makeAccumilator_def add.assoc
          parseOnceLoop.simps [of pus code ai ad ap as accumilator ?p'])
  from one two three show ?thesis by blast
qed

theorem comment_is_discarded_witness:
  "(take (length ''(x)'' + 8) (drop (index \<lparr>index = 0, line = 0\<rparr>) ''{{--(x)--}}ab'')
      = ''{{--'' @ ''(x)'' @ ''--}}''
    \<and> depthAfter 0 ''(x)'' = 0
    \<and> parseOnceLoop (parseUntilStatment 13 ''{{--(x)--}}ab'') ''{{--(x)--}}ab''
         True True True False
         \<lparr>acc_value = [], startIndex = 0, startLine = 0\<rparr> \<lparr>index = 0, line = 0\<rparr>
        = Some (Inr (TextStatement \<lparr>start = 0, endp = 13, lineStart = 0\<rparr> ''ab'',
                     \<lparr>index = 13, line = 0\<rparr>)))
   \<and> (take (length ''x'' + 8) (drop (index \<lparr>index = 1, line = 0\<rparr>) ''a{{--x--}}'')
      = ''{{--'' @ ''x'' @ ''--}}''
    \<and> depthAfter 0 ''x'' = 0
    \<and> isAtEnd ''a{{--x--}}'' (advance ''a{{--x--}}'' (length ''x'' + 8) \<lparr>index = 1, line = 0\<rparr>)
    \<and> parseOnceLoop (parseUntilStatment 10 ''a{{--x--}}'') ''a{{--x--}}''
         True True True False
         \<lparr>acc_value = [], startIndex = 1, startLine = 0\<rparr> \<lparr>index = 1, line = 0\<rparr>
        = Some (Inr (TextStatement \<lparr>start = 1, endp = 10, lineStart = 0\<rparr> [],
                     \<lparr>index = 10, line = 0\<rparr>)))"
proof -
  let ?c1 = "''{{--(x)--}}ab''"
  let ?a1 = "\<lparr>acc_value = [], startIndex = 0, startLine = 0\<rparr>"
  let ?p1 = "\<lparr>index = 0, line = 0\<rparr>"
  have h1: "acc_value ?a1 = []" by simp
  have h2: "take (length ''(x)'' + 8) (drop (index ?p1) ?c1) = ''{{--'' @ ''(x)'' @ ''--}}''"
    by simp
  have h3: "\<forall>k<length ''(x)''. take 4 (drop k (''(x)'' @ ''--}}'')) \<noteq> ''--}}''"
    by (simp add: eval_nat_numeral less_Suc_eq)
  have h4: "depthAfter 0 ''(x)'' = 0" by (simp add: PAREN_START_def PAREN_END_def)
  have r1: "textStartingAt (startIndex ?a1) (startLine ?a1)
              (parseOnce (parseUntilStatment 13 ?c1) ?c1 True True True False
                 (advance ?c1 (length ''(x)'' + 8) ?p1))
            = Some (Inr (TextStatement \<lparr>start = 0, endp = 13, lineStart = 0\<rparr> ''ab'',
                         \<lparr>index = 13, line = 0\<rparr>))"
    by code_simp
  note t1 = comment_is_discarded
              [of ?a1 "''(x)''" ?p1 ?c1 "parseUntilStatment 13 ?c1" True True True False,
               OF h1 h2 h3 h4]
  from t1 [THEN conjunct2, THEN conjunct1] r1
  have w1: "parseOnceLoop (parseUntilStatment 13 ?c1) ?c1 True True True False ?a1 ?p1
              = Some (Inr (TextStatement \<lparr>start = 0, endp = 13, lineStart = 0\<rparr> ''ab'',
                           \<lparr>index = 13, line = 0\<rparr>))"
    by (rule trans)
  let ?c2 = "''a{{--x--}}''"
  let ?a2 = "\<lparr>acc_value = [], startIndex = 1, startLine = 0\<rparr>"
  let ?p2 = "\<lparr>index = 1, line = 0\<rparr>"
  have g1: "acc_value ?a2 = []" by simp
  have g2: "take (length ''x'' + 8) (drop (index ?p2) ?c2) = ''{{--'' @ ''x'' @ ''--}}''"
    by simp
  have g3: "\<forall>k<length ''x''. take 4 (drop k (''x'' @ ''--}}'')) \<noteq> ''--}}''" by simp
  have g4: "depthAfter 0 ''x'' = 0" by (simp add: PAREN_START_def PAREN_END_def)
  have g5: "isAtEnd ?c2 (advance ?c2 (length ''x'' + 8) ?p2)" by code_simp
  have r2: "(Some (Inr (TextStatement
                          (newPositionRange (startIndex ?a2) (startLine ?a2)
                             (Some (index ?p2 + length ''x'' + 8)))
                          [],
                        advance ?c2 (length ''x'' + 8) ?p2)) :: (Statement \<times> Parser) outcome)
            = Some (Inr (TextStatement \<lparr>start = 1, endp = 10, lineStart = 0\<rparr> [],
                         \<lparr>index = 10, line = 0\<rparr>))"
    by code_simp
  note t2 = comment_is_discarded
              [of ?a2 "''x''" ?p2 ?c2 "parseUntilStatment 10 ?c2" True True True False,
               OF g1 g2 g3 g4]
  from t2 [THEN conjunct2, THEN conjunct2, THEN mp, OF g5] r2
  have w2: "parseOnceLoop (parseUntilStatment 10 ?c2) ?c2 True True True False ?a2 ?p2
              = Some (Inr (TextStatement \<lparr>start = 1, endp = 10, lineStart = 0\<rparr> [],
                           \<lparr>index = 10, line = 0\<rparr>))"
    by (rule trans)
  from h2 h4 w1 g2 g4 g5 w2 show ?thesis by (intro conjI)
qed

end
